theory Spec2Isabelle
  imports Main "HOL-Library.AList"
begin

section \<open>JavaScript values and property bags\<close>

text \<open>
  The island hydration pipeline of \<^verbatim>\<open>packages/astro/src/runtime/server/hydration.ts\<close>
  handles property values of TypeScript type \<^verbatim>\<open>any\<close>. The code only ever looks at
  their \<^verbatim>\<open>typeof\<close>, at nullishness and truthiness, and at the own keys and fields of
  an object, so a value is one of the following. Numbers stand as integers and
  functions as tags: the code never inspects either beyond \<^verbatim>\<open>typeof\<close> and truthiness.
\<close>

datatype jsvalue =
    JUndefined
  | JNull
  | JBool bool
  | JNum int
  | JStr string
  | JArr "jsvalue list"
  | JObj "(string \<times> jsvalue) list"
  | JFun nat

datatype symbol = Symbol nat

text \<open>
  \<^verbatim>\<open>type Props = Record<string | number | symbol, any>\<close>. A bag is read in two ways by
  the code: \<^verbatim>\<open>Object.entries\<close> gives its own enumerable string-keyed entries in
  property order, and \<^verbatim>\<open>Object.getOwnPropertySymbols\<close> its symbol keys. The two key
  domains are kept apart, each as an association list in property order.
\<close>

record Props =
  entries :: "(string \<times> jsvalue) list"
  symbols :: "(symbol \<times> jsvalue) list"

definition emptyProps :: Props where
  "emptyProps = \<lparr>entries = [], symbols = []\<rparr>"

text \<open>
  The assignment \<^verbatim>\<open>obj[key] = value\<close> on the own string-keyed entries of an
  ordinary object: it overwrites the value of a key that is there, in place, and
  appends a new key otherwise (\<^const>\<open>AList.update\<close>). The one exception is the key
  \<^verbatim>\<open>__proto__\<close>, which reaches the setter of \<^verbatim>\<open>Object.prototype\<close> and makes no own
  entry. The prototype of an object is not part of the model.
\<close>

definition assign :: "string \<Rightarrow> 'v \<Rightarrow> (string \<times> 'v) list \<Rightarrow> (string \<times> 'v) list" where
  "assign k v xs = (if k = ''__proto__'' then xs else AList.update k v xs)"

definition setEntry :: "string \<Rightarrow> jsvalue \<Rightarrow> Props \<Rightarrow> Props" where
  "setEntry k v p = p\<lparr>entries := assign k v (entries p)\<rparr>"

definition setSymbol :: "symbol \<Rightarrow> jsvalue \<Rightarrow> Props \<Rightarrow> Props" where
  "setSymbol s v p = p\<lparr>symbols := AList.update s v (symbols p)\<rparr>"

text \<open>The read \<^verbatim>\<open>obj[sym]\<close>: a missing property reads as \<^verbatim>\<open>undefined\<close>.\<close>

definition getSymbol :: "Props \<Rightarrow> symbol \<Rightarrow> jsvalue" where
  "getSymbol p s = (case map_of (symbols p) s of Some v \<Rightarrow> v | None \<Rightarrow> JUndefined)"

fun typeof :: "jsvalue \<Rightarrow> string" where
  "typeof JUndefined = ''undefined''"
| "typeof JNull = ''object''"
| "typeof (JBool b) = ''boolean''"
| "typeof (JNum n) = ''number''"
| "typeof (JStr s) = ''string''"
| "typeof (JArr xs) = ''object''"
| "typeof (JObj fs) = ''object''"
| "typeof (JFun f) = ''function''"

text \<open>JavaScript truthiness, as used by \<^verbatim>\<open>if (x)\<close>, \<^verbatim>\<open>!x\<close> and \<^verbatim>\<open>x || y\<close>.\<close>

fun truthy :: "jsvalue \<Rightarrow> bool" where
  "truthy JUndefined = False"
| "truthy JNull = False"
| "truthy (JBool b) = b"
| "truthy (JNum n) = (n \<noteq> 0)"
| "truthy (JStr s) = (s \<noteq> [])"
| "truthy (JArr xs) = True"
| "truthy (JObj fs) = True"
| "truthy (JFun f) = True"

text \<open>\<^verbatim>\<open>Object.keys(o)\<close> and the field read \<^verbatim>\<open>o.name\<close>, on an object.\<close>

fun objectKeys :: "jsvalue \<Rightarrow> string list" where
  "objectKeys (JObj fs) = map fst fs"
| "objectKeys v = []"

fun getField :: "jsvalue \<Rightarrow> string \<Rightarrow> jsvalue" where
  "getField (JObj fs) k = (case map_of fs k of Some v \<Rightarrow> v | None \<Rightarrow> JUndefined)"
| "getField v k = JUndefined"

text \<open>
  Modelled from the spec: \<^verbatim>\<open>isNullish\<close> and \<^verbatim>\<open>isObject\<close> are imported from
  \<^verbatim>\<open>./util.js\<close>, which is not among the sources. The spec says of \<^verbatim>\<open>client:params\<close>:
  ``if the value is nullish, drop the key entirely; else the value must be a plain
  structured object''. So \<open>isNullish\<close> holds of \<^verbatim>\<open>null\<close> and \<^verbatim>\<open>undefined\<close>, and
  \<open>isObject\<close> of plain objects only.
\<close>

fun isNullish :: "jsvalue \<Rightarrow> bool" where
  "isNullish JUndefined = True"
| "isNullish JNull = True"
| "isNullish v = False"

fun isObject :: "jsvalue \<Rightarrow> bool" where
  "isObject (JObj fs) = True"
| "isObject v = False"

section \<open>Strings\<close>

text \<open>\<^verbatim>\<open>s.startsWith(p)\<close>.\<close>

definition startsWith :: "string \<Rightarrow> string \<Rightarrow> bool" where
  "startsWith s p \<longleftrightarrow> take (length p) s = p"

text \<open>
  \<^verbatim>\<open>s.split(c)\<close> for a one-character separator: the pieces between the separators,
  one more than there are separators.
\<close>

fun split_str :: "char \<Rightarrow> string \<Rightarrow> string list" where
  "split_str c [] = [[]]"
| "split_str c (x # xs) =
     (if x = c then [] # split_str c xs
      else (case split_str c xs of p # ps \<Rightarrow> (x # p) # ps | [] \<Rightarrow> [[x]]))"

text \<open>\<^verbatim>\<open>xs.join(sep)\<close>.\<close>

fun join :: "string \<Rightarrow> string list \<Rightarrow> string" where
  "join sep [] = []"
| "join sep [x] = x"
| "join sep (x # y # ys) = x @ sep @ join sep (y # ys)"

section \<open>The directive extractor\<close>

text \<open>
  \<^verbatim>\<open>interface HydrationMetadata\<close>. The TypeScript types are erased at run time and
  \<^verbatim>\<open>extractDirectives\<close> stores property values of any type in three of the fields;
  \<open>directive\<close> only ever receives a string. The field \<open>componentExport\<close> is the
  \<^verbatim>\<open>value\<close> of the source's one-field object \<^verbatim>\<open>componentExport: { value }\<close>, and
  \<open>hvalue\<close> is the source's field \<^verbatim>\<open>value\<close>.
\<close>

record HydrationMetadata =
  directive :: string
  hvalue :: jsvalue
  componentUrl :: jsvalue
  componentExport :: jsvalue

record ExtractedProps =
  isPage :: bool
  hydration :: "HydrationMetadata option"
  props :: Props
  propsWithoutTransitionAttributes :: Props

text \<open>
  The exceptions of the module. The three \<^verbatim>\<open>client:params\<close> errors are plain
  \<^verbatim>\<open>Error\<close>s whose messages print the offending value with \<^verbatim>\<open>JSON.stringify\<close> and
  \<^verbatim>\<open>typeof\<close>; the model keeps the offending value, or its \<^verbatim>\<open>typeof\<close>, in place of
  the rendered message. \<open>InvalidHydrationDirective\<close> carries its message.
  \<open>MissingMediaQueryDirective\<close> and \<open>NoMatchingImport\<close> (with the display name its
  message is built from) are the two \<^verbatim>\<open>AstroError\<close>s. \<open>CollaboratorFailure\<close> is a
  failure of an external operation (a rejected \<^verbatim>\<open>resolve\<close>, a \<^verbatim>\<open>URIError\<close>).
\<close>

datatype error =
    InvalidParamsValue jsvalue
  | InvalidParamsShape jsvalue
  | InvalidParamsDirective string
  | InvalidHydrationDirective string
  | MissingMediaQueryDirective
  | NoMatchingImport string
  | CollaboratorFailure string

text \<open>
  The spec's \<open>InvalidDirectiveValue\<close>: the three errors of \<^verbatim>\<open>client:params\<close>.
\<close>

fun isInvalidDirectiveValue :: "error \<Rightarrow> bool" where
  "isInvalidDirectiveValue (InvalidParamsValue v) = True"
| "isInvalidDirectiveValue (InvalidParamsShape v) = True"
| "isInvalidDirectiveValue (InvalidParamsDirective t) = True"
| "isInvalidDirectiveValue e = False"

definition transitionDirectivesToCopyOnIsland :: "string list" where
  "transitionDirectivesToCopyOnIsland =
     [''data-astro-transition-scope'', ''data-astro-transition-persist'']"

text \<open>
  \<^verbatim>\<open>SSRResult['clientDirectives']\<close> is a \<^verbatim>\<open>Map<string, string>\<close> from directive name
  to script: an association list in insertion order, with \<^verbatim>\<open>has\<close> and \<^verbatim>\<open>keys\<close>.
\<close>

type_synonym clientDirectives = "(string \<times> string) list"

definition has :: "clientDirectives \<Rightarrow> string \<Rightarrow> bool" where
  "has cd d \<longleftrightarrow> d \<in> set (map fst cd)"

definition keys :: "clientDirectives \<Rightarrow> string list" where
  "keys cd = map fst cd"

definition emptyHydration :: HydrationMetadata where
  "emptyHydration =
     \<lparr>directive = [], hvalue = JStr [], componentUrl = JStr [], componentExport = JStr []\<rparr>"

definition initialExtracted :: ExtractedProps where
  "initialExtracted =
     \<lparr>isPage = False, hydration = None, props = emptyProps,
      propsWithoutTransitionAttributes = emptyProps\<rparr>"

text \<open>The message of the error thrown for a directive that is not registered.\<close>

definition hydrationMethods :: "clientDirectives \<Rightarrow> string" where
  "hydrationMethods cd = join '', '' (map (\<lambda>d. ''client:'' @ d) (keys cd))"

definition invalidDirectiveMessage :: "string \<Rightarrow> clientDirectives \<Rightarrow> string" where
  "invalidDirectiveMessage key cd =
     ''Error: invalid hydration directive '' @ [CHR 0x22] @ key @ [CHR 0x22]
       @ ''. Supported hydration methods: '' @ hydrationMethods cd"

text \<open>
  The \<^verbatim>\<open>default\<close> case of the switch, on the current key and value. The key starts
  with \<^verbatim>\<open>client:\<close> wherever the case is entered, so that \<^verbatim>\<open>key.split(':')[1]\<close> is in
  range (lemma \<open>split_str_client\<close> below).
\<close>

definition defaultCase ::
  "clientDirectives \<Rightarrow> string \<Rightarrow> jsvalue \<Rightarrow> HydrationMetadata \<Rightarrow> error + HydrationMetadata"
where
  "defaultCase cd key v h =
     (let h' = h\<lparr>directive := split_str CHR '':'' key ! 1, hvalue := v\<rparr> in
      if \<not> has cd (directive h') then Inl (InvalidHydrationDirective (invalidDirectiveMessage key cd))
      else if directive h' = ''media'' \<and> typeof (hvalue h') \<noteq> ''string''
        then Inl MissingMediaQueryDirective
      else Inr h')"

text \<open>
  The \<^verbatim>\<open>switch (key)\<close>. The case \<^verbatim>\<open>client:params\<close> either breaks (nullish value),
  throws, or reassigns \<^verbatim>\<open>key\<close> and \<^verbatim>\<open>value\<close> and falls through to the default case.
  The closing case distinction only names the string \<open>d\<close> of the \<^verbatim>\<open>directive\<close> field:
  its other branch is behind the \<^verbatim>\<open>typeof\<close> test before it.
\<close>

definition clientSwitch ::
  "clientDirectives \<Rightarrow> string \<Rightarrow> jsvalue \<Rightarrow> HydrationMetadata \<Rightarrow> error + HydrationMetadata"
where
  "clientSwitch cd key v h =
     (if key = ''client:component-path'' then Inr (h\<lparr>componentUrl := v\<rparr>)
      else if key = ''client:component-export'' then Inr (h\<lparr>componentExport := v\<rparr>)
      else if key = ''client:component-hydration'' then Inr h
      else if key = ''client:display-name'' then Inr h
      else if key = ''client:params'' then
        (if isNullish v then Inr h
         else if \<not> isObject v then Inl (InvalidParamsValue v)
         else if \<exists>k \<in> set (objectKeys v). k \<noteq> ''directive'' \<and> k \<noteq> ''value''
           then Inl (InvalidParamsShape v)
         else if typeof (getField v ''directive'') \<noteq> ''string''
           then Inl (InvalidParamsDirective (typeof (getField v ''directive'')))
         else (case getField v ''directive'' of
                 JStr d \<Rightarrow> defaultCase cd (''client:'' @ d) (getField v ''value'') h
               | u \<Rightarrow> Inl (InvalidParamsDirective (typeof u))))
      else defaultCase cd key v h)"

text \<open>
  The lazy initialisation \<^verbatim>\<open>if (!extracted.hydration) extracted.hydration = {...}\<close>:
  the hydration record that the switch then works on.
\<close>

definition ensureHydration :: "ExtractedProps \<Rightarrow> HydrationMetadata" where
  "ensureHydration ex = (case hydration ex of None \<Rightarrow> emptyHydration | Some h \<Rightarrow> h)"

text \<open>
  The body of the main loop, for one entry of \<^verbatim>\<open>Object.entries(inputProps)\<close>. An
  exception leaves the function, so the state is returned on success only.
\<close>

definition extractEntry ::
  "clientDirectives \<Rightarrow> string \<times> jsvalue \<Rightarrow> ExtractedProps \<Rightarrow> error + ExtractedProps"
where
  "extractEntry cd e ex =
     (let key = fst e; v = snd e;
          ex1 = (if startsWith key ''server:'' \<and> key = ''server:root''
                 then ex\<lparr>isPage := True\<rparr> else ex)
      in
      if startsWith key ''client:'' then
        (let h = ensureHydration ex1 in
         case clientSwitch cd key v h of
           Inl err \<Rightarrow> Inl err
         | Inr h' \<Rightarrow> Inr (ex1\<lparr>hydration := Some h'\<rparr>))
      else
        Inr (ex1\<lparr>props := setEntry key v (props ex1),
                 propsWithoutTransitionAttributes :=
                   (if key \<in> set transitionDirectivesToCopyOnIsland
                    then propsWithoutTransitionAttributes ex1
                    else setEntry key v (propsWithoutTransitionAttributes ex1))\<rparr>))"

fun extractLoop ::
  "clientDirectives \<Rightarrow> (string \<times> jsvalue) list \<Rightarrow> ExtractedProps \<Rightarrow> error + ExtractedProps"
where
  "extractLoop cd [] ex = Inr ex"
| "extractLoop cd (e # es) ex =
     (case extractEntry cd e ex of
        Inl err \<Rightarrow> Inl err
      | Inr ex' \<Rightarrow> extractLoop cd es ex')"

text \<open>The second loop, over \<^verbatim>\<open>Object.getOwnPropertySymbols(inputProps)\<close>.\<close>

definition copySymbol :: "Props \<Rightarrow> symbol \<Rightarrow> ExtractedProps \<Rightarrow> ExtractedProps" where
  "copySymbol inputProps s ex =
     ex\<lparr>props := setSymbol s (getSymbol inputProps s) (props ex),
        propsWithoutTransitionAttributes :=
          setSymbol s (getSymbol inputProps s) (propsWithoutTransitionAttributes ex)\<rparr>"

definition copySymbols :: "Props \<Rightarrow> ExtractedProps \<Rightarrow> ExtractedProps" where
  "copySymbols inputProps ex = fold (copySymbol inputProps) (map fst (symbols inputProps)) ex"

definition extractDirectives :: "Props \<Rightarrow> clientDirectives \<Rightarrow> error + ExtractedProps" where
  "extractDirectives inputProps cd =
     (case extractLoop cd (entries inputProps) initialExtracted of
        Inl err \<Rightarrow> Inl err
      | Inr ex \<Rightarrow> Inr (copySymbols inputProps ex))"

section \<open>The island script builder\<close>

text \<open>
  Of the renderer, the result context and the component metadata, the builder reads the
  fields below. A \<^verbatim>\<open>clientEntrypoint\<close> that is absent is \<open>None\<close>. The result context's
  \<^verbatim>\<open>resolve\<close> is asynchronous and may reject: it returns an error or a URL.
\<close>

record SSRLoadedRenderer =
  clientEntrypoint :: "string option"

record SSRResult =
  resolve :: "string \<Rightarrow> error + string"

text \<open>\<^verbatim>\<open>Required<AstroComponentMetadata>\<close>; \<open>md_componentExport\<close> is \<^verbatim>\<open>componentExport.value\<close>.\<close>

record AstroComponentMetadata =
  md_displayName :: string
  md_hydrate :: string
  md_hydrateArgs :: jsvalue
  md_componentUrl :: string
  md_componentExport :: string

text \<open>\<^verbatim>\<open>interface HydrateScriptOptions\<close>; \<open>attrs\<close> is \<open>None\<close> when \<^verbatim>\<open>undefined\<close>.\<close>

record HydrateScriptOptions =
  so_renderer :: SSRLoadedRenderer
  so_result :: SSRResult
  so_astroId :: string
  so_props :: Props
  so_attrs :: "(string \<times> string) list option"

text \<open>\<^verbatim>\<open>SSRElement\<close>: the island, with its attributes in insertion order.\<close>

record SSRElement =
  el_children :: string
  el_props :: "(string \<times> jsvalue) list"

text \<open>
  The functions the builder imports or takes from the platform, as parameters:
  \<^verbatim>\<open>escapeHTML\<close>, \<^verbatim>\<open>serializeProps\<close>, \<^verbatim>\<open>decodeURI\<close> (which throws on a malformed
  escape) and \<^verbatim>\<open>JSON.stringify\<close> of the object \<^verbatim>\<open>{ name, value }\<close>.
\<close>

record collaborators =
  escapeHTML :: "string \<Rightarrow> string"
  serializeProps :: "Props \<Rightarrow> AstroComponentMetadata \<Rightarrow> error + string"
  decodeURI :: "string \<Rightarrow> error + string"
  stringifyOpts :: "string \<Rightarrow> jsvalue \<Rightarrow> string"

text \<open>
  A computation of the builder either throws or returns, and makes calls to
  \<^verbatim>\<open>result.resolve\<close> on the way: it maps the list of the paths resolved so far to its
  outcome and the extended list. The \<^verbatim>\<open>await\<close>s of the source are sequential.
\<close>

type_synonym 'a action = "string list \<Rightarrow> (error + 'a) \<times> string list"

definition returnA :: "'a \<Rightarrow> 'a action" where
  "returnA x = (\<lambda>t. (Inr x, t))"

definition liftA :: "error + 'a \<Rightarrow> 'a action" where
  "liftA r = (\<lambda>t. (r, t))"

definition bindA :: "'a action \<Rightarrow> ('a \<Rightarrow> 'b action) \<Rightarrow> 'b action" where
  "bindA m f = (\<lambda>t. case m t of (Inl e, t') \<Rightarrow> (Inl e, t') | (Inr x, t') \<Rightarrow> f x t')"

definition resolveA :: "SSRResult \<Rightarrow> string \<Rightarrow> string action" where
  "resolveA r p = (\<lambda>t. (resolve r p, t @ [p]))"

definition setAttr :: "string \<Rightarrow> jsvalue \<Rightarrow> SSRElement \<Rightarrow> SSRElement" where
  "setAttr k v island = island\<lparr>el_props := assign k v (el_props island)\<rparr>"

text \<open>The read \<^verbatim>\<open>props[name]\<close> of a string key.\<close>

definition getEntry :: "Props \<Rightarrow> string \<Rightarrow> jsvalue" where
  "getEntry p k = (case map_of (entries p) k of Some v \<Rightarrow> v | None \<Rightarrow> JUndefined)"

text \<open>``Attach renderer-provided attributes''.\<close>

definition attachAttrs :: "collaborators \<Rightarrow> (string \<times> string) list option \<Rightarrow> SSRElement \<Rightarrow> SSRElement" where
  "attachAttrs c as island =
     (case as of
        None \<Rightarrow> island
      | Some kvs \<Rightarrow> fold (\<lambda>kv. setAttr (fst kv) (JStr (escapeHTML c (snd kv)))) kvs island)"

text \<open>``Add renderer url'': taken when \<^verbatim>\<open>renderer.clientEntrypoint\<close> is truthy.\<close>

definition addRendererUrl ::
  "collaborators \<Rightarrow> HydrateScriptOptions \<Rightarrow> AstroComponentMetadata \<Rightarrow> SSRElement \<Rightarrow> SSRElement action"
where
  "addRendererUrl c so md island =
     (case clientEntrypoint (so_renderer so) of
        None \<Rightarrow> returnA island
      | Some entry \<Rightarrow>
          if entry = [] then returnA island
          else
            bindA (liftA (decodeURI c entry)) (\<lambda>decoded.
            bindA (resolveA (so_result so) decoded) (\<lambda>rendererUrl.
            bindA (liftA (serializeProps c (so_props so) md)) (\<lambda>serialized.
            returnA
              (setAttr ''props'' (JStr (escapeHTML c serialized))
                (setAttr ''renderer-url'' (JStr rendererUrl)
                  (setAttr ''component-export'' (JStr (md_componentExport md)) island)))))))"

text \<open>The closing \<^verbatim>\<open>forEach\<close> over the transition keys.\<close>

definition copyTransition :: "Props \<Rightarrow> string \<Rightarrow> SSRElement \<Rightarrow> SSRElement" where
  "copyTransition p name island =
     (if truthy (getEntry p name) then setAttr name (getEntry p name) island else island)"

definition generateHydrateScript ::
  "collaborators \<Rightarrow> HydrateScriptOptions \<Rightarrow> AstroComponentMetadata
     \<Rightarrow> (error + SSRElement) \<times> string list"
where
  "generateHydrateScript c so md =
     (if md_componentExport md = [] then (Inl (NoMatchingImport (md_displayName md)), [])
      else
        (let island0 = \<lparr>el_children = [], el_props = [(''uid'', JStr (so_astroId so))]\<rparr>;
             island1 = attachAttrs c (so_attrs so) island0
         in
           bindA (liftA (decodeURI c (md_componentUrl md))) (\<lambda>decoded.
           bindA (resolveA (so_result so) decoded) (\<lambda>url.
           bindA (addRendererUrl c so md (setAttr ''component-url'' (JStr url) island1)) (\<lambda>island3.
           bindA (resolveA (so_result so) ''astro:scripts/before-hydration.js'') (\<lambda>beforeHydrationUrl.
           returnA
             (fold (copyTransition (so_props so)) transitionDirectivesToCopyOnIsland
               (setAttr ''opts''
                  (JStr (escapeHTML c (stringifyOpts c (md_displayName md)
                     (if truthy (md_hydrateArgs md) then md_hydrateArgs md else JStr []))))
                  ((if beforeHydrationUrl \<noteq> []
                    then setAttr ''before-hydration-url'' (JStr beforeHydrationUrl)
                    else (\<lambda>i. i))
                     (setAttr ''client'' (JStr (md_hydrate md))
                       (setAttr ''ssr'' (JStr []) island3))))))))))
        [])"

text \<open>
  The island that \<^verbatim>\<open>generateHydrateScript\<close> builds when the renderer has no client
  entry point, from the resolved component URL and before-hydration URL: the
  assignments of the source in their order, without the ``renderer url'' block.
\<close>

definition islandWithoutEntrypoint ::
  "collaborators \<Rightarrow> HydrateScriptOptions \<Rightarrow> AstroComponentMetadata \<Rightarrow> string \<Rightarrow> string
     \<Rightarrow> SSRElement"
where
  "islandWithoutEntrypoint c so md url b =
     fold (copyTransition (so_props so)) transitionDirectivesToCopyOnIsland
       (setAttr ''opts''
          (JStr (escapeHTML c (stringifyOpts c (md_displayName md)
             (if truthy (md_hydrateArgs md) then md_hydrateArgs md else JStr []))))
          ((if b \<noteq> [] then setAttr ''before-hydration-url'' (JStr b) else (\<lambda>i. i))
             (setAttr ''client'' (JStr (md_hydrate md))
               (setAttr ''ssr'' (JStr [])
                 (setAttr ''component-url'' (JStr url)
                   (attachAttrs c (so_attrs so)
                      \<lparr>el_children = [], el_props = [(''uid'', JStr (so_astroId so))]\<rparr>))))))"

section \<open>Vocabulary of the properties\<close>

text \<open>The four \<^verbatim>\<open>client:\<close> keys whose cases of the switch set no directive name.\<close>

definition nonDirectiveKeys :: "string list" where
  "nonDirectiveKeys =
     [''client:component-path'', ''client:component-export'',
      ''client:component-hydration'', ''client:display-name'']"

text \<open>
  The entries that the switch takes to its default case, unless it throws on the way:
  a \<^verbatim>\<open>client:\<close> key that is none of the four above, and is not a \<^verbatim>\<open>client:params\<close>
  with a nullish value.
\<close>

definition isDirectiveEntry :: "string \<times> jsvalue \<Rightarrow> bool" where
  "isDirectiveEntry e \<longleftrightarrow>
     startsWith (fst e) ''client:'' \<and> fst e \<notin> set nonDirectiveKeys \<and>
     \<not> (fst e = ''client:params'' \<and> isNullish (snd e))"

text \<open>
  A \<^verbatim>\<open>client:params\<close> value that passes the three checks of the switch: an object
  whose keys are only \<^verbatim>\<open>directive\<close> and \<^verbatim>\<open>value\<close>, with a string for \<^verbatim>\<open>directive\<close>.
\<close>

fun validParams :: "jsvalue \<Rightarrow> bool" where
  "validParams (JObj fs) =
     (list_all (\<lambda>k. k = ''directive'' \<or> k = ''value'') (map fst fs) \<and>
      (case map_of fs ''directive'' of Some (JStr d) \<Rightarrow> True | _ \<Rightarrow> False))"
| "validParams v = False"

text \<open>The string in the \<^verbatim>\<open>directive\<close> field of such a value.\<close>

definition paramsDirective :: "jsvalue \<Rightarrow> string" where
  "paramsDirective v = (case getField v ''directive'' of JStr d \<Rightarrow> d | u \<Rightarrow> [])"

text \<open>
  The key and the value that the default case works on: for \<^verbatim>\<open>client:params\<close> the
  reassigned \<^verbatim>\<open>key = `client:${directive}`\<close> and \<^verbatim>\<open>value = maybeDirectiveOptions.value\<close>,
  for any other key the entry's own.
\<close>

definition effectiveKey :: "string \<times> jsvalue \<Rightarrow> string" where
  "effectiveKey e =
     (if fst e = ''client:params'' then ''client:'' @ paramsDirective (snd e) else fst e)"

definition effectiveValue :: "string \<times> jsvalue \<Rightarrow> jsvalue" where
  "effectiveValue e =
     (if fst e = ''client:params'' then getField (snd e) ''value'' else snd e)"

text \<open>An entry that reaches the default case: a directive entry whose \<^verbatim>\<open>params\<close> are valid.\<close>

definition dispatched :: "string \<times> jsvalue \<Rightarrow> bool" where
  "dispatched e \<longleftrightarrow>
     isDirectiveEntry e \<and> (if fst e = ''client:params'' then validParams (snd e) else True)"

text \<open>The state with the hydration record present: absent, it becomes the initial record.\<close>

definition withHydration :: "ExtractedProps \<Rightarrow> ExtractedProps" where
  "withHydration ex = ex\<lparr>hydration := Some (ensureHydration ex)\<rparr>"

text \<open>An entry is kept in \<open>propsWithoutTransitionAttributes\<close> when its key is no transition key.\<close>

definition notTransition :: "string \<times> jsvalue \<Rightarrow> bool" where
  "notTransition kv \<longleftrightarrow> fst kv \<notin> set transitionDirectivesToCopyOnIsland"

section \<open>Example inputs\<close>

definition registry :: "string list \<Rightarrow> clientDirectives" where
  "registry names = map (\<lambda>n. (n, ''/* directive script */'')) names"

definition exampleBag :: Props where
  "exampleBag =
     \<lparr>entries =
        [(''title'', JStr ''Hi''),
         (''data-astro-transition-scope'', JStr ''s1''),
         (''server:root'', JBool True),
         (''server:defer'', JBool True),
         (''client:load'', JStr []),
         (''client:component-path'', JStr ''/C.jsx'')],
      symbols = [(Symbol 0, JNum 42)]\<rparr>"

definition exampleExtracted :: ExtractedProps where
  "exampleExtracted =
     \<lparr>isPage = True,
      hydration = Some \<lparr>directive = ''load'', hvalue = JStr [],
                        componentUrl = JStr ''/C.jsx'', componentExport = JStr []\<rparr>,
      props =
        \<lparr>entries =
           [(''title'', JStr ''Hi''),
            (''data-astro-transition-scope'', JStr ''s1''),
            (''server:root'', JBool True),
            (''server:defer'', JBool True)],
         symbols = [(Symbol 0, JNum 42)]\<rparr>,
      propsWithoutTransitionAttributes =
        \<lparr>entries =
           [(''title'', JStr ''Hi''),
            (''server:root'', JBool True),
            (''server:defer'', JBool True)],
         symbols = [(Symbol 0, JNum 42)]\<rparr>\<rparr>"

definition plainBag :: Props where
  "plainBag =
     \<lparr>entries = [(''title'', JStr ''Hi''), (''count'', JNum 3)],
      symbols = [(Symbol 0, JNum 42)]\<rparr>"

definition transitionBag :: Props where
  "transitionBag =
     \<lparr>entries = [(''data-astro-transition-scope'', JStr ''s1'')], symbols = []\<rparr>"

text \<open>Stand-ins for the external collaborators, and the inputs of a call of the builder.\<close>

definition exampleCollaborators :: collaborators where
  "exampleCollaborators =
     \<lparr>escapeHTML = (\<lambda>s. s), serializeProps = (\<lambda>p m. Inr ''{}''),
      decodeURI = (\<lambda>s. Inr s), stringifyOpts = (\<lambda>n v. n)\<rparr>"

definition exampleResult :: SSRResult where
  "exampleResult = \<lparr>resolve = (\<lambda>p. Inr (''/'' @ p))\<rparr>"

definition exampleOptions :: "(string \<times> string) list option \<Rightarrow> HydrateScriptOptions" where
  "exampleOptions as =
     \<lparr>so_renderer = \<lparr>clientEntrypoint = None\<rparr>, so_result = exampleResult,
      so_astroId = ''Z1'', so_props = emptyProps, so_attrs = as\<rparr>"

definition exampleMetadata :: "string \<Rightarrow> AstroComponentMetadata" where
  "exampleMetadata export =
     \<lparr>md_displayName = ''Counter'', md_hydrate = ''load'', md_hydrateArgs = JUndefined,
      md_componentUrl = ''Counter.jsx'', md_componentExport = export\<rparr>"

section \<open>Strings and association lists\<close>

lemma startsWith_conv: "startsWith k p \<longleftrightarrow> (\<exists>s. k = p @ s)"
  unfolding startsWith_def
  by (metis append_eq_conv_conj append_take_drop_id)

lemma server_not_client: "startsWith k ''server:'' \<Longrightarrow> \<not> startsWith k ''client:''"
  by (auto simp: startsWith_conv)

lemma split_str_nonempty: "split_str c s \<noteq> []"
  by (induction s) (auto split: list.splits)

lemma hd_split_str: "hd (split_str c s) = takeWhile (\<lambda>x. x \<noteq> c) s"
  using split_str_nonempty[of c]
  by (induction s) (auto split: list.splits)

text \<open>
  \<^verbatim>\<open>key.split(':')[1]\<close> is in range for a key that starts with \<^verbatim>\<open>client:\<close>, and is
  the part of the suffix before its first colon.
\<close>

lemma split_str_client:
  "split_str CHR '':'' (''client:'' @ s) ! 1 = takeWhile (\<lambda>x. x \<noteq> CHR '':'') s"
proof -
  have "split_str CHR '':'' (''client:'' @ s) = ''client'' # split_str CHR '':'' s"
    using split_str_nonempty[of "CHR '':''" s] by (auto split: list.splits)
  then show ?thesis
    using split_str_nonempty[of "CHR '':''" s] hd_split_str[of "CHR '':''" s]
    by (cases "split_str CHR '':'' s") auto
qed

lemma split_str_client_length: "1 < length (split_str CHR '':'' (''client:'' @ s))"
  using split_str_nonempty[of "CHR '':''" s]
  by (cases "split_str CHR '':'' s") (auto split: list.splits)

lemma keys_assign:
  "fst ` set (assign k v xs) = (if k = ''__proto__'' then fst ` set xs else insert k (fst ` set xs))"
  by (simp add: assign_def dom_update)

lemma assign_fresh:
  "k \<notin> fst ` set xs \<Longrightarrow>
   assign k v xs = (if k = ''__proto__'' then xs else xs @ [(k, v)])"
  unfolding assign_def by (induction xs) auto

section \<open>The main loop, entry by entry\<close>

lemma extractLoop_append:
  "extractLoop cd (xs @ ys) ex =
     (case extractLoop cd xs ex of Inl err \<Rightarrow> Inl err | Inr ex' \<Rightarrow> extractLoop cd ys ex')"
  by (induction xs arbitrary: ex) (auto split: sum.splits)

lemma client_not_server_root: "\<not> startsWith ''server:root'' ''client:''"
  by (simp add: startsWith_def)

lemma server_root_test:
  "(startsWith k ''server:'' \<and> k = ''server:root'') \<longleftrightarrow> k = ''server:root''"
  by (auto simp: startsWith_def)

lemma extractEntry_other:
  "\<not> startsWith k ''client:'' \<Longrightarrow>
   extractEntry cd (k, v) ex =
     Inr ((if k = ''server:root'' then ex\<lparr>isPage := True\<rparr> else ex)
            \<lparr>props := setEntry k v (props ex),
             propsWithoutTransitionAttributes :=
               (if k \<in> set transitionDirectivesToCopyOnIsland
                then propsWithoutTransitionAttributes ex
                else setEntry k v (propsWithoutTransitionAttributes ex))\<rparr>)"
  by (simp add: extractEntry_def Let_def server_root_test)

lemma extractEntry_client:
  "startsWith k ''client:'' \<Longrightarrow>
   extractEntry cd (k, v) ex =
     (case clientSwitch cd k v (ensureHydration ex) of
        Inl err \<Rightarrow> Inl err
      | Inr h' \<Rightarrow> Inr (ex\<lparr>hydration := Some h'\<rparr>))"
  using client_not_server_root
  by (auto simp: extractEntry_def Let_def server_root_test)

lemma fold_copySymbol:
  "fold (copySymbol b) ks ex =
     ex\<lparr>props := (props ex)\<lparr>symbols := fold (\<lambda>s. AList.update s (getSymbol b s)) ks (symbols (props ex))\<rparr>,
        propsWithoutTransitionAttributes := (propsWithoutTransitionAttributes ex)
           \<lparr>symbols := fold (\<lambda>s. AList.update s (getSymbol b s)) ks
                         (symbols (propsWithoutTransitionAttributes ex))\<rparr>\<rparr>"
  by (induction ks arbitrary: ex) (simp_all add: copySymbol_def setSymbol_def)

lemma copySymbols_fields:
  "hydration (copySymbols b ex) = hydration ex"
  "isPage (copySymbols b ex) = isPage ex"
  "entries (props (copySymbols b ex)) = entries (props ex)"
  "entries (propsWithoutTransitionAttributes (copySymbols b ex))
     = entries (propsWithoutTransitionAttributes ex)"
  by (simp_all add: copySymbols_def fold_copySymbol)

lemma copySymbols_symbols_only:
  "copySymbols \<lparr>entries = es, symbols = syms\<rparr> = copySymbols \<lparr>entries = es', symbols = syms\<rparr>"
  by (rule ext) (simp add: copySymbols_def fold_copySymbol getSymbol_def)

lemma extractDirectives_Inr:
  assumes "extractDirectives inputProps cd = Inr r"
  obtains ex where "extractLoop cd (entries inputProps) initialExtracted = Inr ex"
    and "r = copySymbols inputProps ex"
  using assms by (auto simp: extractDirectives_def split: sum.splits)

lemma extractDirectives_split:
  assumes "extractLoop cd pre initialExtracted = Inr ex"
  shows "extractDirectives \<lparr>entries = pre @ e # post, symbols = syms\<rparr> cd =
     (case extractEntry cd e ex of
        Inl err \<Rightarrow> Inl err
      | Inr ex1 \<Rightarrow>
          (case extractLoop cd post ex1 of
             Inl err \<Rightarrow> Inl err
           | Inr ex2 \<Rightarrow> Inr (copySymbols \<lparr>entries = pre @ e # post, symbols = syms\<rparr> ex2)))"
  using assms by (simp add: extractDirectives_def extractLoop_append split: sum.splits)

lemma extractDirectives_cong_entry:
  assumes "\<And>ex. extractEntry cd e ex = extractEntry cd e' ex"
  shows "extractDirectives \<lparr>entries = pre @ e # post, symbols = syms\<rparr> cd =
         extractDirectives \<lparr>entries = pre @ e' # post, symbols = syms\<rparr> cd"
  by (simp add: extractDirectives_def extractLoop_append assms
        copySymbols_symbols_only[of "pre @ e # post" syms "pre @ e' # post"]
        split: sum.splits)

text \<open>Running the extractor on the example bags.\<close>

lemma extract_exampleBag:
  "extractDirectives exampleBag (registry [''load'', ''idle'']) = Inr exampleExtracted"
  by code_simp

section \<open>The two output bags\<close>

lemma filter_notTransition_assign:
  "filter notTransition (assign k v xs) =
     (if k \<in> set transitionDirectivesToCopyOnIsland then filter notTransition xs
      else assign k v (filter notTransition xs))"
proof -
  have nt: "notTransition = (\<lambda>kv. fst kv \<notin> set transitionDirectivesToCopyOnIsland)"
    by (auto simp: notTransition_def)
  show ?thesis
    unfolding nt assign_def by (induction xs) auto
qed

lemma extractEntry_props_filter:
  assumes "extractEntry cd e ex = Inr ex'"
    and "entries (propsWithoutTransitionAttributes ex) = filter notTransition (entries (props ex))"
  shows "entries (propsWithoutTransitionAttributes ex') = filter notTransition (entries (props ex'))"
proof (cases "startsWith (fst e) ''client:''")
  case True
  then show ?thesis using assms
    by (cases e) (auto simp: extractEntry_client split: sum.splits)
next
  case False
  from False show ?thesis using assms
    by (cases e) (auto simp: extractEntry_other setEntry_def filter_notTransition_assign)
qed

lemma extractEntry_symbols:
  assumes "extractEntry cd e ex = Inr ex'"
  shows "symbols (props ex') = symbols (props ex) \<and>
         symbols (propsWithoutTransitionAttributes ex') = symbols (propsWithoutTransitionAttributes ex)"
proof (cases "startsWith (fst e) ''client:''")
  case True
  then show ?thesis using assms
    by (cases e) (auto simp: extractEntry_client split: sum.splits)
next
  case False
  then show ?thesis using assms
    by (cases e) (auto simp: extractEntry_other setEntry_def)
qed

lemma extractLoop_props_filter:
  "extractLoop cd es ex = Inr ex' \<Longrightarrow>
   entries (propsWithoutTransitionAttributes ex) = filter notTransition (entries (props ex)) \<Longrightarrow>
   entries (propsWithoutTransitionAttributes ex') = filter notTransition (entries (props ex'))"
proof (induction es arbitrary: ex)
  case Nil
  then show ?case by simp
next
  case (Cons e es)
  then obtain ex1 where 1: "extractEntry cd e ex = Inr ex1" and 2: "extractLoop cd es ex1 = Inr ex'"
    by (auto split: sum.splits)
  show ?case
    using Cons.IH[OF 2] extractEntry_props_filter[OF 1 Cons.prems(2)] by simp
qed

lemma extractLoop_symbols:
  "extractLoop cd es ex = Inr ex' \<Longrightarrow>
   symbols (props ex') = symbols (props ex) \<and>
   symbols (propsWithoutTransitionAttributes ex') = symbols (propsWithoutTransitionAttributes ex)"
proof (induction es arbitrary: ex)
  case Nil
  then show ?case by simp
next
  case (Cons e es)
  then obtain ex1 where 1: "extractEntry cd e ex = Inr ex1" and 2: "extractLoop cd es ex1 = Inr ex'"
    by (auto split: sum.splits)
  show ?case
    using Cons.IH[OF 2] extractEntry_symbols[OF 1] by simp
qed

lemma map_of_fold_update:
  "map_of (fold (\<lambda>s. AList.update s (f s)) ks xs) k =
     (if k \<in> set ks then Some (f k) else map_of xs k)"
  by (induction ks arbitrary: xs) (auto simp: update_conv')

lemma map_of_copied_symbols:
  "map_of (fold (\<lambda>s. AList.update s (getSymbol b s)) (map fst (symbols b)) []) = map_of (symbols b)"
proof
  fix k
  show "map_of (fold (\<lambda>s. AList.update s (getSymbol b s)) (map fst (symbols b)) []) k
          = map_of (symbols b) k"
  proof (cases "map_of (symbols b) k")
    case None
    then have "k \<notin> fst ` set (symbols b)" by (simp add: map_of_eq_None_iff)
    then show ?thesis using None by (simp add: map_of_fold_update)
  next
    case (Some v)
    then have "k \<in> fst ` set (symbols b)" by (metis map_of_eq_None_iff option.distinct(1))
    then show ?thesis using Some by (simp add: map_of_fold_update getSymbol_def)
  qed
qed

lemma extractEntry_props_entries:
  assumes "extractEntry cd e ex = Inr ex'"
  shows "entries (props ex') =
           (if startsWith (fst e) ''client:'' then entries (props ex)
            else assign (fst e) (snd e) (entries (props ex)))"
proof (cases "startsWith (fst e) ''client:''")
  case True
  then show ?thesis using assms
    by (cases e) (auto simp: extractEntry_client split: sum.splits)
next
  case False
  then show ?thesis using assms
    by (cases e) (auto simp: extractEntry_other setEntry_def)
qed

lemma extractLoop_props_keys:
  "extractLoop cd es ex = Inr ex' \<Longrightarrow>
   fst ` set (entries (props ex')) =
     fst ` set (entries (props ex))
       \<union> {k \<in> fst ` set es. \<not> startsWith k ''client:'' \<and> k \<noteq> ''__proto__''}"
proof (induction es arbitrary: ex)
  case Nil
  then show ?case by simp
next
  case (Cons e es)
  then obtain ex1 where 1: "extractEntry cd e ex = Inr ex1" and 2: "extractLoop cd es ex1 = Inr ex'"
    by (auto split: sum.splits)
  show ?case
    using Cons.IH[OF 2] extractEntry_props_entries[OF 1] by (auto simp: keys_assign)
qed

lemma extractLoop_props_distinct:
  "extractLoop cd es ex = Inr ex' \<Longrightarrow> distinct (map fst es) \<Longrightarrow>
   fst ` set es \<inter> fst ` set (entries (props ex)) = {} \<Longrightarrow>
   entries (props ex') =
     entries (props ex)
       @ filter (\<lambda>kv. \<not> startsWith (fst kv) ''client:'' \<and> fst kv \<noteq> ''__proto__'') es"
proof (induction es arbitrary: ex)
  case Nil
  then show ?case by simp
next
  case (Cons e es)
  then obtain ex1 where 1: "extractEntry cd e ex = Inr ex1" and 2: "extractLoop cd es ex1 = Inr ex'"
    by (auto split: sum.splits)
  have fresh: "fst e \<notin> fst ` set (entries (props ex))"
    using Cons.prems(3) by auto
  have e1: "entries (props ex1) =
           (if startsWith (fst e) ''client:'' \<or> fst e = ''__proto__'' then entries (props ex)
            else entries (props ex) @ [e])"
    unfolding extractEntry_props_entries[OF 1] assign_fresh[OF fresh, of "snd e"] by simp
  have disj: "fst ` set es \<inter> fst ` set (entries (props ex1)) = {}"
    using Cons.prems(2,3) e1 by auto
  have "distinct (map fst es)" using Cons.prems(2) by simp
  from Cons.IH[OF 2 this disj] show ?case
    using e1 by simp
qed

lemma extractLoop_no_client:
  "\<forall>e \<in> set es. \<not> startsWith (fst e) ''client:'' \<Longrightarrow>
   \<exists>ex'. extractLoop cd es ex = Inr ex' \<and> hydration ex' = hydration ex \<and>
         (isPage ex' \<longleftrightarrow> isPage ex \<or> ''server:root'' \<in> fst ` set es)"
proof (induction es arbitrary: ex)
  case Nil
  then show ?case by simp
next
  case (Cons e es)
  obtain k v where e: "e = (k, v)" by (cases e)
  have nc: "\<not> startsWith k ''client:''" using Cons.prems e by simp
  obtain ex1 where 1: "extractEntry cd e ex = Inr ex1"
    and h1: "hydration ex1 = hydration ex"
    and p1: "isPage ex1 \<longleftrightarrow> isPage ex \<or> k = ''server:root''"
    using extractEntry_other[OF nc, of cd v ex] e by auto
  obtain ex' where 2: "extractLoop cd es ex1 = Inr ex'" and h2: "hydration ex' = hydration ex1"
    and p2: "isPage ex' \<longleftrightarrow> isPage ex1 \<or> ''server:root'' \<in> fst ` set es"
    using Cons.IH[of ex1] Cons.prems by auto
  show ?case using 1 2 h1 h2 p1 p2 e by auto
qed

lemma Props_eq_iff:
  "(p :: Props) = q \<longleftrightarrow> entries p = entries q \<and> symbols p = symbols q"
  by (cases p, cases q) auto

text \<open>The two output bags of a successful extraction.\<close>

lemma extractDirectives_bags:
  assumes "extractDirectives inputProps cd = Inr r"
  shows "entries (propsWithoutTransitionAttributes r) = filter notTransition (entries (props r)) \<and>
         symbols (propsWithoutTransitionAttributes r) = symbols (props r) \<and>
         map_of (symbols (props r)) = map_of (symbols inputProps)"
proof -
  obtain ex where loop: "extractLoop cd (entries inputProps) initialExtracted = Inr ex"
    and r: "r = copySymbols inputProps ex"
    using assms by (rule extractDirectives_Inr)
  have f: "entries (propsWithoutTransitionAttributes ex) = filter notTransition (entries (props ex))"
    using extractLoop_props_filter[OF loop] by (simp add: initialExtracted_def emptyProps_def)
  have s: "symbols (props ex) = [] \<and> symbols (propsWithoutTransitionAttributes ex) = []"
    using extractLoop_symbols[OF loop] by (simp add: initialExtracted_def emptyProps_def)
  show ?thesis
    using f s by (simp add: r copySymbols_def fold_copySymbol map_of_copied_symbols)
qed

text \<open>
  Claim C5. After every successful extraction, \<open>propsWithoutTransitionAttributes\<close> has
  the string-keyed entries of \<open>props\<close> without those whose key is one of the two
  transition keys; a transition key of the input is a key of \<open>props\<close>; the two bags
  have the same symbol-keyed entries, and every symbol key of the input reads in them
  as it does in the input.
\<close>

theorem extractDirectives_transition_and_symbols:
  assumes "extractDirectives inputProps cd = Inr r"
  shows "entries (propsWithoutTransitionAttributes r) = filter notTransition (entries (props r)) \<and>
         set transitionDirectivesToCopyOnIsland \<inter> fst ` set (entries inputProps)
           \<subseteq> fst ` set (entries (props r)) \<and>
         symbols (propsWithoutTransitionAttributes r) = symbols (props r) \<and>
         map_of (symbols (props r)) = map_of (symbols inputProps)"
proof -
  obtain ex where loop: "extractLoop cd (entries inputProps) initialExtracted = Inr ex"
    and r: "r = copySymbols inputProps ex"
    using assms by (rule extractDirectives_Inr)
  have keys: "fst ` set (entries (props r)) =
      {k \<in> fst ` set (entries inputProps). \<not> startsWith k ''client:'' \<and> k \<noteq> ''__proto__''}"
    using extractLoop_props_keys[OF loop]
    by (simp add: r copySymbols_fields initialExtracted_def emptyProps_def)
  have "\<forall>k \<in> set transitionDirectivesToCopyOnIsland.
          \<not> startsWith k ''client:'' \<and> k \<noteq> ''__proto__''"
    by (simp add: transitionDirectivesToCopyOnIsland_def startsWith_def)
  then have sub: "set transitionDirectivesToCopyOnIsland \<inter> fst ` set (entries inputProps)
           \<subseteq> fst ` set (entries (props r))"
    unfolding keys by blast
  show ?thesis
    using extractDirectives_bags[OF assms] sub by simp
qed

theorem extractDirectives_transition_and_symbols_witness:
  "extractDirectives exampleBag (registry [''load'', ''idle'']) = Inr exampleExtracted \<and>
   entries (propsWithoutTransitionAttributes exampleExtracted)
     = [(''title'', JStr ''Hi''), (''server:root'', JBool True), (''server:defer'', JBool True)] \<and>
   filter notTransition (entries (props exampleExtracted))
     = [(''title'', JStr ''Hi''), (''server:root'', JBool True), (''server:defer'', JBool True)] \<and>
   ''data-astro-transition-scope'' \<in> fst ` set (entries (props exampleExtracted)) \<and>
   map_of (symbols (props exampleExtracted)) (Symbol 0) = Some (JNum 42) \<and>
   map_of (symbols (propsWithoutTransitionAttributes exampleExtracted)) (Symbol 0) = Some (JNum 42)"
proof -
  note t = extractDirectives_transition_and_symbols [OF extract_exampleBag]
  have a: "entries (propsWithoutTransitionAttributes exampleExtracted)
     = [(''title'', JStr ''Hi''), (''server:root'', JBool True), (''server:defer'', JBool True)]"
    by (simp add: exampleExtracted_def)
  have b: "filter notTransition (entries (props exampleExtracted))
     = [(''title'', JStr ''Hi''), (''server:root'', JBool True), (''server:defer'', JBool True)]"
    using t a by simp
  have "''data-astro-transition-scope''
          \<in> set transitionDirectivesToCopyOnIsland \<inter> fst ` set (entries exampleBag)"
    by (simp add: transitionDirectivesToCopyOnIsland_def exampleBag_def)
  then have e: "''data-astro-transition-scope'' \<in> fst ` set (entries (props exampleExtracted))"
    using t by blast
  have c: "map_of (symbols (props exampleExtracted)) (Symbol 0) = Some (JNum 42)"
    using t by (simp add: exampleBag_def)
  have d: "map_of (symbols (propsWithoutTransitionAttributes exampleExtracted)) (Symbol 0)
             = Some (JNum 42)"
    using t c by simp
  show ?thesis
    using extract_exampleBag a b e c d by (intro conjI)
qed

text \<open>
  Claim C1, as stated, fails: a bag with no \<^verbatim>\<open>client:\<close> or \<^verbatim>\<open>server:\<close> key that has
  the key \<^verbatim>\<open>data-astro-transition-scope\<close> gives a \<open>props\<close> with that entry and a
  \<open>propsWithoutTransitionAttributes\<close> without it.
\<close>

theorem extractDirectives_transition_key_counterexample:
  "\<not> startsWith ''data-astro-transition-scope'' ''client:'' \<and>
   \<not> startsWith ''data-astro-transition-scope'' ''server:'' \<and>
   extractDirectives transitionBag (registry [''load'', ''idle'']) =
     Inr \<lparr>isPage = False, hydration = None,
          props = \<lparr>entries = [(''data-astro-transition-scope'', JStr ''s1'')], symbols = []\<rparr>,
          propsWithoutTransitionAttributes = \<lparr>entries = [], symbols = []\<rparr>\<rparr> \<and>
   \<lparr>entries = [(''data-astro-transition-scope'', JStr ''s1'')], symbols = []\<rparr>
     \<noteq> \<lparr>entries = [], symbols = []\<rparr>"
  by code_simp

text \<open>
  Claim C1, amended. For every input bag none of whose string keys starts with
  \<^verbatim>\<open>client:\<close> or \<^verbatim>\<open>server:\<close>, \<^verbatim>\<open>extractDirectives\<close> succeeds and returns
  \<open>hydration = null\<close>, \<open>isPage = false\<close>, and a \<open>propsWithoutTransitionAttributes\<close>
  that is \<open>props\<close> without the entries whose key is a transition key; the two bags are
  equal exactly when the input has neither transition key.
\<close>

theorem extractDirectives_plain_bag:
  assumes "\<forall>k \<in> fst ` set (entries inputProps).
              \<not> startsWith k ''client:'' \<and> \<not> startsWith k ''server:''"
  shows "\<exists>r. extractDirectives inputProps cd = Inr r \<and> hydration r = None \<and> \<not> isPage r \<and>
             entries (propsWithoutTransitionAttributes r)
               = filter notTransition (entries (props r)) \<and>
             symbols (propsWithoutTransitionAttributes r) = symbols (props r) \<and>
             (props r = propsWithoutTransitionAttributes r \<longleftrightarrow>
                (\<forall>k \<in> fst ` set (entries inputProps).
                    k \<notin> set transitionDirectivesToCopyOnIsland))"
proof -
  have nc: "\<forall>e \<in> set (entries inputProps). \<not> startsWith (fst e) ''client:''"
    using assms by auto
  have "startsWith ''server:root'' ''server:''"
    by (simp add: startsWith_def)
  then have nroot: "''server:root'' \<notin> fst ` set (entries inputProps)"
    using assms by blast
  obtain ex where loop: "extractLoop cd (entries inputProps) initialExtracted = Inr ex"
    and h: "hydration ex = None" and pg: "\<not> isPage ex"
    using extractLoop_no_client[OF nc, of cd initialExtracted] nroot
    by (auto simp: initialExtracted_def)
  define r where "r = copySymbols inputProps ex"
  have res: "extractDirectives inputProps cd = Inr r"
    by (simp add: extractDirectives_def loop r_def)
  note inv = extractDirectives_bags[OF res]
  have keys: "fst ` set (entries (props r)) = fst ` set (entries inputProps) - {''__proto__''}"
    using extractLoop_props_keys[OF loop] nc
    by (auto simp: r_def copySymbols_fields initialExtracted_def emptyProps_def)
  have "props r = propsWithoutTransitionAttributes r \<longleftrightarrow>
          filter notTransition (entries (props r)) = entries (props r)"
    using inv by (auto simp: Props_eq_iff)
  also have "\<dots> \<longleftrightarrow> (\<forall>kv \<in> set (entries (props r)). notTransition kv)"
    by (simp add: filter_id_conv)
  also have "\<dots> \<longleftrightarrow> (\<forall>k \<in> fst ` set (entries (props r)). k \<notin> set transitionDirectivesToCopyOnIsland)"
    by (auto simp: notTransition_def)
  finally have eq: "props r = propsWithoutTransitionAttributes r \<longleftrightarrow>
      (\<forall>k \<in> fst ` set (entries inputProps). k \<notin> set transitionDirectivesToCopyOnIsland)"
    unfolding keys by (auto simp: transitionDirectivesToCopyOnIsland_def)
  show ?thesis
    using res h pg inv eq by (auto simp: r_def copySymbols_fields)
qed

theorem extractDirectives_plain_bag_witness:
  "\<not> startsWith ''title'' ''client:'' \<and> \<not> startsWith ''title'' ''server:'' \<and>
   \<not> startsWith ''count'' ''client:'' \<and> \<not> startsWith ''count'' ''server:'' \<and>
   (\<exists>r. extractDirectives plainBag (registry [''load'', ''idle'']) = Inr r \<and>
        hydration r = None \<and> \<not> isPage r \<and>
        props r = propsWithoutTransitionAttributes r)"
proof -
  have h: "\<forall>k \<in> fst ` set (entries plainBag).
              \<not> startsWith k ''client:'' \<and> \<not> startsWith k ''server:''"
    by (simp add: plainBag_def startsWith_def)
  have t: "\<forall>k \<in> fst ` set (entries plainBag). k \<notin> set transitionDirectivesToCopyOnIsland"
    by (simp add: plainBag_def transitionDirectivesToCopyOnIsland_def)
  show ?thesis
    using extractDirectives_plain_bag [OF h, of "registry [''load'', ''idle'']"] t
    by (auto simp: startsWith_def)
qed

text \<open>
  Claim C10. After every successful extraction, the key of every entry of the input
  that starts with \<^verbatim>\<open>server:\<close>, \<^verbatim>\<open>server:root\<close> among them, is a key of \<open>props\<close> and
  of \<open>propsWithoutTransitionAttributes\<close>; and when the keys of the input are distinct,
  as the keys of an object are, both bags hold the entry itself: the key reads there
  with the value it has in the input.
\<close>

theorem extractDirectives_server_keys:
  assumes "extractDirectives inputProps cd = Inr r"
    and "(k, v) \<in> set (entries inputProps)"
    and "startsWith k ''server:''"
  shows "k \<in> fst ` set (entries (props r)) \<and>
         k \<in> fst ` set (entries (propsWithoutTransitionAttributes r)) \<and>
         (distinct (map fst (entries inputProps)) \<longrightarrow>
            map_of (entries (props r)) k = Some v \<and>
            map_of (entries (propsWithoutTransitionAttributes r)) k = Some v)"
proof -
  obtain ex where loop: "extractLoop cd (entries inputProps) initialExtracted = Inr ex"
    and r: "r = copySymbols inputProps ex"
    using assms(1) by (rule extractDirectives_Inr)
  have q: "entries (propsWithoutTransitionAttributes r) = filter notTransition (entries (props r))"
    using extractDirectives_bags[OF assms(1)] by simp
  have nt: "\<And>u. notTransition (k, u)"
    using assms(3)
    by (auto simp: notTransition_def transitionDirectivesToCopyOnIsland_def startsWith_def)
  have np: "k \<noteq> ''__proto__''"
    using assms(3) by (auto simp: startsWith_def)
  have nc: "\<not> startsWith k ''client:''"
    using assms(3) by (rule server_not_client)
  have kin: "k \<in> fst ` set (entries inputProps)"
    using assms(2) by (rule rev_image_eqI) simp
  have k1: "k \<in> fst ` set (entries (props r))"
    using extractLoop_props_keys[OF loop] kin nc np
    by (simp add: r copySymbols_fields initialExtracted_def emptyProps_def)
  then obtain u where "(k, u) \<in> set (entries (props r))"
    by auto
  then have "(k, u) \<in> set (entries (propsWithoutTransitionAttributes r))"
    unfolding q using nt by simp
  then have k2: "k \<in> fst ` set (entries (propsWithoutTransitionAttributes r))"
    by (rule rev_image_eqI) simp
  have vals: "map_of (entries (props r)) k = Some v \<and>
            map_of (entries (propsWithoutTransitionAttributes r)) k = Some v"
    if d: "distinct (map fst (entries inputProps))"
  proof -
    have p: "entries (props r) =
        filter (\<lambda>kv. \<not> startsWith (fst kv) ''client:'' \<and> fst kv \<noteq> ''__proto__'')
          (entries inputProps)"
      using extractLoop_props_distinct[OF loop d]
      by (simp add: r copySymbols_fields initialExtracted_def emptyProps_def)
    have d1: "distinct (map fst (entries (props r)))"
      unfolding p using d by (simp add: distinct_map_filter)
    have d2: "distinct (map fst (entries (propsWithoutTransitionAttributes r)))"
      unfolding q using d1 by (simp add: distinct_map_filter)
    have m1: "(k, v) \<in> set (entries (props r))"
      unfolding p using assms(2) nc np by simp
    have m2: "(k, v) \<in> set (entries (propsWithoutTransitionAttributes r))"
      unfolding q using m1 nt by simp
    show ?thesis
      using d1 d2 m1 m2 by simp
  qed
  show ?thesis
    using k1 k2 vals by blast
qed

theorem extractDirectives_server_keys_witness:
  "extractDirectives exampleBag (registry [''load'', ''idle'']) = Inr exampleExtracted \<and>
   distinct (map fst (entries exampleBag)) \<and>
   (''server:root'', JBool True) \<in> set (entries exampleBag) \<and>
   startsWith ''server:root'' ''server:'' \<and>
   isPage exampleExtracted \<and>
   map_of (entries (props exampleExtracted)) ''server:root'' = Some (JBool True) \<and>
   map_of (entries (propsWithoutTransitionAttributes exampleExtracted)) ''server:root''
     = Some (JBool True)"
proof -
  have d: "distinct (map fst (entries exampleBag))"
    by (simp add: exampleBag_def)
  have m: "(''server:root'', JBool True) \<in> set (entries exampleBag)"
    by (simp add: exampleBag_def)
  have s: "startsWith ''server:root'' ''server:''"
    by (simp add: startsWith_def)
  have i: "isPage exampleExtracted"
    by (simp add: exampleExtracted_def)
  note w = extractDirectives_server_keys
             [OF extract_exampleBag m s, THEN conjunct2, THEN conjunct2, THEN mp, OF d]
  show ?thesis
    using extract_exampleBag d m s i w [THEN conjunct1] w [THEN conjunct2] by (intro conjI)
qed

section \<open>The switch on client keys\<close>

lemma clientSwitch_default:
  "key \<notin> set nonDirectiveKeys \<Longrightarrow> key \<noteq> ''client:params'' \<Longrightarrow>
   clientSwitch cd key v h = defaultCase cd key v h"
  by (simp add: clientSwitch_def nonDirectiveKeys_def)

lemma clientSwitch_nonDirective:
  "key \<in> set nonDirectiveKeys \<Longrightarrow>
   \<exists>h'. clientSwitch cd key v h = Inr h' \<and> directive h' = directive h \<and> hvalue h' = hvalue h"
  by (auto simp: clientSwitch_def nonDirectiveKeys_def)

lemma clientSwitch_params_nullish:
  "isNullish v \<Longrightarrow> clientSwitch cd ''client:params'' v h = Inr h"
  by (simp add: clientSwitch_def)

lemma clientSwitch_params_obj:
  assumes "\<forall>k \<in> set (map fst fs). k = ''directive'' \<or> k = ''value''"
    and "map_of fs ''directive'' = Some (JStr d)"
  shows "clientSwitch cd ''client:params'' (JObj fs) h =
           defaultCase cd (''client:'' @ d) (getField (JObj fs) ''value'') h"
proof -
  have 1: "\<not> (\<exists>k \<in> set (objectKeys (JObj fs)). k \<noteq> ''directive'' \<and> k \<noteq> ''value'')"
    using assms(1) by auto
  have 2: "getField (JObj fs) ''directive'' = JStr d"
    using assms(2) by simp
  have 3: "\<not> isNullish (JObj fs)" "isObject (JObj fs)"
    by simp_all
  have 4: "''client:params'' \<noteq> ''client:component-path''"
    "''client:params'' \<noteq> ''client:component-export''"
    "''client:params'' \<noteq> ''client:component-hydration''"
    "''client:params'' \<noteq> ''client:display-name''"
    by simp_all
  show ?thesis
    unfolding clientSwitch_def
    by (simp only: 1 2 3 4 if_False if_True refl not_True_eq_False not_False_eq_True
          jsvalue.case typeof.simps)
qed

lemma validParamsE:
  assumes "validParams v"
  obtains fs d where "v = JObj fs"
    and "\<forall>k \<in> set (map fst fs). k = ''directive'' \<or> k = ''value''"
    and "map_of fs ''directive'' = Some (JStr d)"
proof -
  from assms obtain fs where v: "v = JObj fs"
    by (cases v) simp_all
  from assms have ks: "\<forall>k \<in> set (map fst fs). k = ''directive'' \<or> k = ''value''"
    unfolding v validParams.simps list_all_iff by (rule conjunct1)
  from assms have c: "(case map_of fs ''directive'' of Some (JStr d) \<Rightarrow> True | _ \<Rightarrow> False)"
    unfolding v validParams.simps by (rule conjunct2)
  then obtain d where d: "map_of fs ''directive'' = Some (JStr d)"
    by (cases "map_of fs ''directive''"; simp split: jsvalue.splits)
  from v ks d show thesis by (rule that)
qed

lemma clientSwitch_params_valid:
  assumes "validParams v"
  shows "clientSwitch cd ''client:params'' v h =
           defaultCase cd (''client:'' @ paramsDirective v) (getField v ''value'') h"
proof -
  from assms obtain fs d where v: "v = JObj fs"
    and ks: "\<forall>k \<in> set (map fst fs). k = ''directive'' \<or> k = ''value''"
    and d: "map_of fs ''directive'' = Some (JStr d)"
    by (rule validParamsE)
  have pd: "paramsDirective v = d"
    using v d by (simp add: paramsDirective_def)
  show ?thesis
    unfolding pd unfolding v by (rule clientSwitch_params_obj[OF ks d])
qed

lemma clientSwitch_params_invalid:
  assumes "\<not> isNullish v" and "\<not> validParams v"
  shows "\<exists>err. clientSwitch cd ''client:params'' v h = Inl err \<and> isInvalidDirectiveValue err"
proof -
  have 4: "''client:params'' \<noteq> ''client:component-path''"
    "''client:params'' \<noteq> ''client:component-export''"
    "''client:params'' \<noteq> ''client:component-hydration''"
    "''client:params'' \<noteq> ''client:display-name''"
    by simp_all
  have sw: "clientSwitch cd ''client:params'' v h =
        (if \<not> isObject v then Inl (InvalidParamsValue v)
         else if \<exists>k \<in> set (objectKeys v). k \<noteq> ''directive'' \<and> k \<noteq> ''value''
           then Inl (InvalidParamsShape v)
         else if typeof (getField v ''directive'') \<noteq> ''string''
           then Inl (InvalidParamsDirective (typeof (getField v ''directive'')))
         else (case getField v ''directive'' of
                 JStr d \<Rightarrow> defaultCase cd (''client:'' @ d) (getField v ''value'') h
               | u \<Rightarrow> Inl (InvalidParamsDirective (typeof u))))"
    unfolding clientSwitch_def using assms(1)
    by (simp only: 4 if_False if_True refl)
  show ?thesis
  proof (cases "isObject v")
    case False
    then show ?thesis unfolding sw by simp
  next
    case True
    then obtain fs where v: "v = JObj fs" by (cases v) simp_all
    show ?thesis
    proof (cases "\<exists>k \<in> set (objectKeys v). k \<noteq> ''directive'' \<and> k \<noteq> ''value''")
      case True
      then show ?thesis unfolding sw using \<open>isObject v\<close> by simp
    next
      case False
      then have ks: "list_all (\<lambda>k. k = ''directive'' \<or> k = ''value'') (map fst fs)"
        unfolding v list_all_iff objectKeys.simps by simp
      have nd: "\<not> (case map_of fs ''directive'' of Some (JStr d) \<Rightarrow> True | _ \<Rightarrow> False)"
        using assms(2) ks unfolding v validParams.simps by simp
      have "typeof (getField v ''directive'') \<noteq> ''string''"
      proof (cases "map_of fs ''directive''")
        case None
        then show ?thesis unfolding v by simp
      next
        case (Some u)
        with nd show ?thesis unfolding v by (cases u) simp_all
      qed
      then show ?thesis
        unfolding sw using False \<open>isObject v\<close> by simp
    qed
  qed
qed

lemma defaultCase_client:
  "defaultCase cd (''client:'' @ s) v h =
     (if \<not> has cd (takeWhile (\<lambda>x. x \<noteq> CHR '':'') s)
        then Inl (InvalidHydrationDirective (invalidDirectiveMessage (''client:'' @ s) cd))
      else if takeWhile (\<lambda>x. x \<noteq> CHR '':'') s = ''media'' \<and> typeof v \<noteq> ''string''
        then Inl MissingMediaQueryDirective
      else Inr (h\<lparr>directive := takeWhile (\<lambda>x. x \<noteq> CHR '':'') s, hvalue := v\<rparr>))"
  unfolding defaultCase_def Let_def split_str_client[symmetric] by simp

lemma extractEntry_dispatched:
  assumes "dispatched e"
  shows "extractEntry cd e ex =
     (case defaultCase cd (effectiveKey e) (effectiveValue e) (ensureHydration ex) of
        Inl err \<Rightarrow> Inl err
      | Inr h' \<Rightarrow> Inr (ex\<lparr>hydration := Some h'\<rparr>))"
proof -
  obtain k v where e: "e = (k, v)" by (cases e)
  have c: "startsWith k ''client:''" and nd: "k \<notin> set nonDirectiveKeys"
    using assms e by (simp_all add: dispatched_def isDirectiveEntry_def)
  show ?thesis
  proof (cases "k = ''client:params''")
    case True
    then have "validParams v" using assms e by (simp add: dispatched_def)
    then show ?thesis
      using True e c
      by (simp add: extractEntry_client clientSwitch_params_valid effectiveKey_def effectiveValue_def)
  next
    case False
    then show ?thesis
      using e c nd
      by (simp add: extractEntry_client clientSwitch_default effectiveKey_def effectiveValue_def)
  qed
qed

lemma extractEntry_unknown:
  assumes "dispatched e" and "\<not> has cd (split_str CHR '':'' (effectiveKey e) ! 1)"
  shows "extractEntry cd e ex =
           Inl (InvalidHydrationDirective (invalidDirectiveMessage (effectiveKey e) cd))"
  using assms(2) by (simp add: extractEntry_dispatched[OF assms(1)] defaultCase_def)

lemma extractEntry_media:
  assumes "dispatched e" and "split_str CHR '':'' (effectiveKey e) ! 1 = ''media''"
    and "has cd ''media''"
  shows "extractEntry cd e ex =
           (if typeof (effectiveValue e) \<noteq> ''string'' then Inl MissingMediaQueryDirective
            else Inr (ex\<lparr>hydration := Some ((ensureHydration ex)
                        \<lparr>directive := ''media'', hvalue := effectiveValue e\<rparr>)\<rparr>))"
  using assms(2,3) by (simp add: extractEntry_dispatched[OF assms(1)] defaultCase_def)

text \<open>
  Claim C6. When the main loop reaches an entry that enters the default case, as its
  own key or as a valid \<^verbatim>\<open>client:params\<close>, and the directive name taken from the
  effective key is not registered, \<^verbatim>\<open>extractDirectives\<close> fails at that entry, whatever
  entries follow it, with the error whose message quotes the effective key and lists
  every registered name as \<^verbatim>\<open>client:<name>\<close>, joined by a comma and a space.
\<close>

theorem extractDirectives_unknown_directive:
  assumes "extractLoop cd pre initialExtracted = Inr ex"
    and "dispatched e"
    and "\<not> has cd (split_str CHR '':'' (effectiveKey e) ! 1)"
  shows "extractDirectives \<lparr>entries = pre @ e # post, symbols = syms\<rparr> cd =
     Inl (InvalidHydrationDirective
           (''Error: invalid hydration directive '' @ [CHR 0x22] @ effectiveKey e @ [CHR 0x22]
              @ ''. Supported hydration methods: ''
              @ join '', '' (map (\<lambda>n. ''client:'' @ n) (map fst cd))))"
  unfolding extractDirectives_split[OF assms(1)] extractEntry_unknown[OF assms(2,3)]
  by (simp add: invalidDirectiveMessage_def hydrationMethods_def keys_def)

lemma extract_weird:
  "extractLoop (registry [''load'', ''idle'']) [(''title'', JStr ''Hi'')] initialExtracted =
     Inr \<lparr>isPage = False, hydration = None,
          props = \<lparr>entries = [(''title'', JStr ''Hi'')], symbols = []\<rparr>,
          propsWithoutTransitionAttributes = \<lparr>entries = [(''title'', JStr ''Hi'')], symbols = []\<rparr>\<rparr>"
  by code_simp

theorem extractDirectives_unknown_directive_witness:
  "extractLoop (registry [''load'', ''idle'']) [(''title'', JStr ''Hi'')] initialExtracted =
     Inr \<lparr>isPage = False, hydration = None,
          props = \<lparr>entries = [(''title'', JStr ''Hi'')], symbols = []\<rparr>,
          propsWithoutTransitionAttributes = \<lparr>entries = [(''title'', JStr ''Hi'')], symbols = []\<rparr>\<rparr> \<and>
   dispatched (''client:weird'', JStr ''x'') \<and>
   \<not> has (registry [''load'', ''idle''])
         (split_str CHR '':'' (effectiveKey (''client:weird'', JStr ''x'')) ! 1) \<and>
   extractDirectives
     \<lparr>entries = [(''title'', JStr ''Hi'')] @ (''client:weird'', JStr ''x'') # [(''client:load'', JStr [])],
      symbols = []\<rparr> (registry [''load'', ''idle'']) =
     Inl (InvalidHydrationDirective
           (''Error: invalid hydration directive '' @ [CHR 0x22] @ ''client:weird'' @ [CHR 0x22]
              @ ''. Supported hydration methods: client:load, client:idle'')) \<and>
   dispatched (''client:params'', JObj [(''directive'', JStr ''weird'')]) \<and>
   extractDirectives
     \<lparr>entries = [(''title'', JStr ''Hi'')]
                  @ (''client:params'', JObj [(''directive'', JStr ''weird'')])
                  # [(''client:load'', JStr [])],
      symbols = []\<rparr> (registry [''load'', ''idle'']) =
     Inl (InvalidHydrationDirective
           (''Error: invalid hydration directive '' @ [CHR 0x22] @ ''client:weird'' @ [CHR 0x22]
              @ ''. Supported hydration methods: client:load, client:idle''))"
proof -
  let ?p = "(''client:params'', JObj [(''directive'', JStr ''weird'')])"
  have d': "dispatched ?p"
    by code_simp
  have n': "\<not> has (registry [''load'', ''idle'']) (split_str CHR '':'' (effectiveKey ?p) ! 1)"
    by code_simp
  have k': "effectiveKey ?p = ''client:weird''"
    by code_simp
  have d: "dispatched (''client:weird'', JStr ''x'')"
    by code_simp
  have n: "\<not> has (registry [''load'', ''idle''])
         (split_str CHR '':'' (effectiveKey (''client:weird'', JStr ''x'')) ! 1)"
    by code_simp
  have k: "effectiveKey (''client:weird'', JStr ''x'') = ''client:weird''"
    by code_simp
  have j: "join '', '' (map (\<lambda>n. ''client:'' @ n) (map fst (registry [''load'', ''idle''])))
             = ''client:load, client:idle''"
    by code_simp
  have r: "extractDirectives
     \<lparr>entries = [(''title'', JStr ''Hi'')] @ (''client:weird'', JStr ''x'') # [(''client:load'', JStr [])],
      symbols = []\<rparr> (registry [''load'', ''idle'']) =
     Inl (InvalidHydrationDirective
           (''Error: invalid hydration directive '' @ [CHR 0x22] @ ''client:weird'' @ [CHR 0x22]
              @ ''. Supported hydration methods: client:load, client:idle''))"
    using extractDirectives_unknown_directive
            [OF extract_weird d n, of "[(''client:load'', JStr [])]" "[]"]
    unfolding k j by simp
  have r': "extractDirectives
     \<lparr>entries = [(''title'', JStr ''Hi'')] @ ?p # [(''client:load'', JStr [])],
      symbols = []\<rparr> (registry [''load'', ''idle'']) =
     Inl (InvalidHydrationDirective
           (''Error: invalid hydration directive '' @ [CHR 0x22] @ ''client:weird'' @ [CHR 0x22]
              @ ''. Supported hydration methods: client:load, client:idle''))"
    using extractDirectives_unknown_directive
            [OF extract_weird d' n', of "[(''client:load'', JStr [])]" "[]"]
    unfolding k' j by simp
  show ?thesis
    using extract_weird d n r d' r' by (intro conjI)
qed

text \<open>
  Claim C7. Let the main loop reach an entry that enters the default case with the
  directive name \<^verbatim>\<open>media\<close>, and let \<^verbatim>\<open>media\<close> be registered. With that entry last,
  extraction fails with \<^verbatim>\<open>MissingMediaQueryDirective\<close> exactly when the argument is
  not a string; a non-string argument fails so whatever follows the entry; and any
  string argument, the empty string among them, passes: the entry sets the name
  \<^verbatim>\<open>media\<close> and the argument, and with that entry last extraction succeeds.
\<close>

theorem extractDirectives_media_query:
  assumes "extractLoop cd pre initialExtracted = Inr ex"
    and "dispatched e"
    and "split_str CHR '':'' (effectiveKey e) ! 1 = ''media''"
    and "has cd ''media''"
  shows "(extractDirectives \<lparr>entries = pre @ [e], symbols = syms\<rparr> cd = Inl MissingMediaQueryDirective
            \<longleftrightarrow> typeof (effectiveValue e) \<noteq> ''string'') \<and>
         (typeof (effectiveValue e) \<noteq> ''string'' \<longrightarrow>
            extractDirectives \<lparr>entries = pre @ e # post, symbols = syms\<rparr> cd
              = Inl MissingMediaQueryDirective) \<and>
         (typeof (effectiveValue e) = ''string'' \<longrightarrow>
            extractEntry cd e ex =
              Inr (ex\<lparr>hydration := Some ((ensureHydration ex)
                      \<lparr>directive := ''media'', hvalue := effectiveValue e\<rparr>)\<rparr>) \<and>
            (\<exists>r. extractDirectives \<lparr>entries = pre @ [e], symbols = syms\<rparr> cd = Inr r \<and>
                 hydration r = Some ((ensureHydration ex)
                      \<lparr>directive := ''media'', hvalue := effectiveValue e\<rparr>)))"
  unfolding extractDirectives_split[OF assms(1)] extractEntry_media[OF assms(2,3,4)]
  by (simp add: copySymbols_fields)

lemma extract_media_prefix:
  "extractLoop (registry [''load'', ''media'']) [] initialExtracted = Inr initialExtracted"
  by simp

theorem extractDirectives_media_query_witness:
  "extractLoop (registry [''load'', ''media'']) [] initialExtracted = Inr initialExtracted \<and>
   dispatched (''client:media'', JStr []) \<and>
   split_str CHR '':'' (effectiveKey (''client:media'', JStr [])) ! 1 = ''media'' \<and>
   has (registry [''load'', ''media'']) ''media'' \<and>
   typeof (effectiveValue (''client:media'', JStr [])) = ''string'' \<and>
   extractDirectives \<lparr>entries = [] @ [(''client:media'', JStr [])], symbols = []\<rparr>
       (registry [''load'', ''media''])
     \<noteq> Inl MissingMediaQueryDirective \<and>
   (\<exists>r. extractDirectives \<lparr>entries = [] @ [(''client:media'', JStr [])], symbols = []\<rparr>
            (registry [''load'', ''media'']) = Inr r \<and>
        hydration r = Some ((ensureHydration initialExtracted)
                              \<lparr>directive := ''media'',
                               hvalue := effectiveValue (''client:media'', JStr [])\<rparr>)) \<and>
   dispatched (''client:media'', JBool True) \<and>
   typeof (effectiveValue (''client:media'', JBool True)) \<noteq> ''string'' \<and>
   extractDirectives
     \<lparr>entries = [] @ (''client:media'', JBool True) # [(''client:load'', JStr [])],
      symbols = []\<rparr> (registry [''load'', ''media'']) = Inl MissingMediaQueryDirective"
proof -
  let ?b = "(''client:media'', JBool True)"
  have d': "dispatched ?b"
    by code_simp
  have m': "split_str CHR '':'' (effectiveKey ?b) ! 1 = ''media''"
    by code_simp
  have t': "typeof (effectiveValue ?b) \<noteq> ''string''"
    by code_simp
  have d: "dispatched (''client:media'', JStr [])"
    by code_simp
  have m: "split_str CHR '':'' (effectiveKey (''client:media'', JStr [])) ! 1 = ''media''"
    by code_simp
  have k: "has (registry [''load'', ''media'']) ''media''"
    by code_simp
  have t: "typeof (effectiveValue (''client:media'', JStr [])) = ''string''"
    by code_simp
  note w = extractDirectives_media_query [OF extract_media_prefix d m k, of "[]" "[]"]
  have a: "extractDirectives \<lparr>entries = [] @ [(''client:media'', JStr [])], symbols = []\<rparr>
       (registry [''load'', ''media''])
     \<noteq> Inl MissingMediaQueryDirective"
    using w [THEN conjunct1] t by simp
  have b: "\<exists>r. extractDirectives \<lparr>entries = [] @ [(''client:media'', JStr [])], symbols = []\<rparr>
            (registry [''load'', ''media'']) = Inr r \<and>
        hydration r = Some ((ensureHydration initialExtracted)
                              \<lparr>directive := ''media'',
                               hvalue := effectiveValue (''client:media'', JStr [])\<rparr>)"
    using w [THEN conjunct2, THEN conjunct2, THEN mp, OF t] by (rule conjunct2)
  have c: "extractDirectives
     \<lparr>entries = [] @ ?b # [(''client:load'', JStr [])], symbols = []\<rparr>
     (registry [''load'', ''media'']) = Inl MissingMediaQueryDirective"
    using extractDirectives_media_query
            [OF extract_media_prefix d' m' k, of "[]" "[(''client:load'', JStr [])]",
             THEN conjunct2, THEN conjunct1, THEN mp, OF t'] .
  show ?thesis
    using extract_media_prefix d m k t a b d' t' c by (intro conjI)
qed

section \<open>The directive name\<close>

lemma ensureHydration_update: "ensureHydration (ex\<lparr>hydration := Some h\<rparr>) = h"
  by (simp add: ensureHydration_def)

text \<open>An entry that is no directive entry leaves the directive name and argument alone.\<close>

lemma extractEntry_not_directive:
  assumes "\<not> isDirectiveEntry e" and "extractEntry cd e ex = Inr ex'"
  shows "directive (ensureHydration ex') = directive (ensureHydration ex) \<and>
         hvalue (ensureHydration ex') = hvalue (ensureHydration ex) \<and>
         (hydration ex \<noteq> None \<longrightarrow> hydration ex' \<noteq> None)"
proof -
  obtain k v where e: "e = (k, v)" by (cases e)
  show ?thesis
  proof (cases "startsWith k ''client:''")
    case False
    then show ?thesis
      using assms(2) unfolding e extractEntry_other[OF False]
      by (auto simp: ensureHydration_def)
  next
    case True
    note sw = assms(2)[unfolded e extractEntry_client[OF True]]
    show ?thesis
    proof (cases "k \<in> set nonDirectiveKeys")
      case True
      from clientSwitch_nonDirective[OF True, of cd v "ensureHydration ex"]
      obtain h' where "clientSwitch cd k v (ensureHydration ex) = Inr h'"
        and "directive h' = directive (ensureHydration ex)"
        and "hvalue h' = hvalue (ensureHydration ex)"
        by (elim exE conjE)
      then show ?thesis using sw by (auto simp: ensureHydration_update)
    next
      case False
      then have k: "k = ''client:params''" and n: "isNullish v"
        using assms(1) True unfolding e isDirectiveEntry_def by simp_all
      show ?thesis
        using sw unfolding k clientSwitch_params_nullish[OF n]
        by (auto simp: ensureHydration_update)
    qed
  qed
qed

lemma extractLoop_not_directive:
  "\<forall>e \<in> set es. \<not> isDirectiveEntry e \<Longrightarrow> extractLoop cd es ex = Inr ex' \<Longrightarrow>
   directive (ensureHydration ex') = directive (ensureHydration ex) \<and>
   hvalue (ensureHydration ex') = hvalue (ensureHydration ex) \<and>
   (hydration ex \<noteq> None \<longrightarrow> hydration ex' \<noteq> None)"
proof (induction es arbitrary: ex)
  case Nil
  then show ?case by simp
next
  case (Cons e es)
  from Cons.prems(2) obtain ex1 where 1: "extractEntry cd e ex = Inr ex1"
    and 2: "extractLoop cd es ex1 = Inr ex'"
    by (auto split: sum.splits)
  have nd: "\<not> isDirectiveEntry e" and nds: "\<forall>e \<in> set es. \<not> isDirectiveEntry e"
    using Cons.prems(1) by simp_all
  show ?case
    using Cons.IH[OF nds 2] extractEntry_not_directive[OF nd 1] by simp
qed

text \<open>A directive entry that does not throw reaches the default case.\<close>

lemma isDirectiveEntry_dispatched:
  assumes "isDirectiveEntry e" and "extractEntry cd e ex = Inr ex'"
  shows "dispatched e"
proof (cases "fst e = ''client:params''")
  case False
  then show ?thesis using assms(1) by (simp add: dispatched_def)
next
  case True
  obtain v where e: "e = (''client:params'', v)" using True by (cases e) simp
  have c: "startsWith ''client:params'' ''client:''" by (simp add: startsWith_def)
  have nn: "\<not> isNullish v" using assms(1) unfolding e isDirectiveEntry_def by simp
  have "validParams v"
  proof (rule ccontr)
    assume "\<not> validParams v"
    from clientSwitch_params_invalid[OF nn this, of cd "ensureHydration ex"]
    obtain err where "clientSwitch cd ''client:params'' v (ensureHydration ex) = Inl err"
      by (elim exE conjE)
    then show False using assms(2) unfolding e extractEntry_client[OF c] by simp
  qed
  then show ?thesis using assms(1) True e by (simp add: dispatched_def)
qed

lemma extractEntry_directive:
  assumes "isDirectiveEntry e" and "extractEntry cd e ex = Inr ex'"
  shows "\<exists>h. hydration ex' = Some h \<and> has cd (directive h) \<and>
             directive h = split_str CHR '':'' (effectiveKey e) ! 1 \<and>
             hvalue h = effectiveValue e"
proof -
  note d = isDirectiveEntry_dispatched[OF assms]
  show ?thesis
    using assms(2) unfolding extractEntry_dispatched[OF d] defaultCase_def Let_def
    by (auto split: if_splits)
qed

lemma extractLoop_directive:
  "extractLoop cd es ex = Inr ex' \<Longrightarrow> \<exists>e \<in> set es. isDirectiveEntry e \<Longrightarrow>
   \<exists>h. hydration ex' = Some h \<and> has cd (directive h)"
proof (induction es arbitrary: ex)
  case Nil
  then show ?case by simp
next
  case (Cons e es)
  from Cons.prems(1) obtain ex1 where 1: "extractEntry cd e ex = Inr ex1"
    and 2: "extractLoop cd es ex1 = Inr ex'"
    by (auto split: sum.splits)
  show ?case
  proof (cases "\<exists>e \<in> set es. isDirectiveEntry e")
    case True
    then show ?thesis by (rule Cons.IH[OF 2])
  next
    case False
    then have nds: "\<forall>e \<in> set es. \<not> isDirectiveEntry e" by simp
    then have "isDirectiveEntry e" using Cons.prems(2) by simp
    from extractEntry_directive[OF this 1]
    obtain h1 where h1: "hydration ex1 = Some h1" and k1: "has cd (directive h1)"
      by (elim exE conjE)
    from extractLoop_not_directive[OF nds 2] h1
    obtain h where "hydration ex' = Some h" and "directive h = directive h1"
      by (auto simp: ensureHydration_def)
    then show ?thesis using k1 by simp
  qed
qed

text \<open>
  Claim C3, as stated, fails: a bag whose only \<^verbatim>\<open>client:\<close> key is
  \<^verbatim>\<open>client:display-name\<close> is extracted with a hydration record whose directive name is
  the empty string of the initial record, which is not registered.
\<close>

theorem extractDirectives_display_name_counterexample:
  "extractDirectives \<lparr>entries = [(''client:display-name'', JStr ''Counter'')], symbols = []\<rparr>
       (registry [''load'', ''idle'']) =
     Inr \<lparr>isPage = False,
          hydration = Some \<lparr>directive = [], hvalue = JStr [],
                            componentUrl = JStr [], componentExport = JStr []\<rparr>,
          props = \<lparr>entries = [], symbols = []\<rparr>,
          propsWithoutTransitionAttributes = \<lparr>entries = [], symbols = []\<rparr>\<rparr> \<and>
   \<not> has (registry [''load'', ''idle'']) []"
  by code_simp

text \<open>
  Claim C3, amended. Whenever \<^verbatim>\<open>extractDirectives\<close> succeeds and the hydration record
  is present: if the bag has a directive entry (a \<^verbatim>\<open>client:\<close> key other than
  \<^verbatim>\<open>component-path\<close>, \<^verbatim>\<open>component-export\<close>, \<^verbatim>\<open>component-hydration\<close>,
  \<^verbatim>\<open>display-name\<close> and a \<^verbatim>\<open>params\<close> with a nullish value), the record's directive
  name is registered; otherwise the name is the empty string the record starts with.
\<close>

theorem extractDirectives_directive_known:
  assumes "extractDirectives inputProps cd = Inr r" and "hydration r = Some h"
  shows "if (\<exists>e \<in> set (entries inputProps). isDirectiveEntry e)
         then has cd (directive h) else directive h = []"
proof -
  obtain ex where loop: "extractLoop cd (entries inputProps) initialExtracted = Inr ex"
    and r: "r = copySymbols inputProps ex"
    using assms(1) by (rule extractDirectives_Inr)
  have hex: "hydration ex = Some h"
    using assms(2) by (simp add: r copySymbols_fields)
  show ?thesis
  proof (cases "\<exists>e \<in> set (entries inputProps). isDirectiveEntry e")
    case True
    from extractLoop_directive[OF loop True] hex show ?thesis using True by simp
  next
    case False
    then have "\<forall>e \<in> set (entries inputProps). \<not> isDirectiveEntry e" by simp
    from extractLoop_not_directive[OF this loop] hex
    have "directive h = []"
      by (simp add: ensureHydration_def initialExtracted_def emptyHydration_def)
    then show ?thesis using False by simp
  qed
qed

theorem extractDirectives_directive_known_witness:
  "extractDirectives exampleBag (registry [''load'', ''idle'']) = Inr exampleExtracted \<and>
   hydration exampleExtracted =
     Some \<lparr>directive = ''load'', hvalue = JStr [],
           componentUrl = JStr ''/C.jsx'', componentExport = JStr []\<rparr> \<and>
   (''client:load'', JStr []) \<in> set (entries exampleBag) \<and>
   isDirectiveEntry (''client:load'', JStr []) \<and>
   has (registry [''load'', ''idle'']) ''load''"
proof -
  have h: "hydration exampleExtracted =
     Some \<lparr>directive = ''load'', hvalue = JStr [],
           componentUrl = JStr ''/C.jsx'', componentExport = JStr []\<rparr>"
    by (simp add: exampleExtracted_def)
  have m: "(''client:load'', JStr []) \<in> set (entries exampleBag)"
    by (simp add: exampleBag_def)
  have d: "isDirectiveEntry (''client:load'', JStr [])"
    by code_simp
  have e: "\<exists>e \<in> set (entries exampleBag). isDirectiveEntry e"
    using m d by (rule bexI[rotated])
  have k: "has (registry [''load'', ''idle'']) ''load''"
    using extractDirectives_directive_known [OF extract_exampleBag h] e by simp
  show ?thesis
    using extract_exampleBag h m d k by (intro conjI)
qed

text \<open>
  Claim C4, as stated, fails: for the key \<^verbatim>\<open>client:a:b\<close> the directive name is
  \<^verbatim>\<open>a\<close>, the second piece of \<^verbatim>\<open>key.split(':')\<close>, also when \<^verbatim>\<open>a:b\<close> is registered.
\<close>

theorem extractDirectives_colon_suffix_counterexample:
  "extractDirectives \<lparr>entries = [(''client:a:b'', JStr ''x'')], symbols = []\<rparr>
       (registry [''a:b'', ''a'']) =
     Inr \<lparr>isPage = False,
          hydration = Some \<lparr>directive = ''a'', hvalue = JStr ''x'',
                            componentUrl = JStr [], componentExport = JStr []\<rparr>,
          props = \<lparr>entries = [], symbols = []\<rparr>,
          propsWithoutTransitionAttributes = \<lparr>entries = [], symbols = []\<rparr>\<rparr> \<and>
   ''a'' \<noteq> ''a:b''"
  by code_simp

text \<open>
  Claim C4, amended. For every \<^verbatim>\<open>client:\<close> key whose suffix is none of
  \<^verbatim>\<open>component-path\<close>, \<^verbatim>\<open>component-export\<close>, \<^verbatim>\<open>component-hydration\<close>,
  \<^verbatim>\<open>display-name\<close>, \<^verbatim>\<open>params\<close>: when extraction succeeds and no directive entry
  follows the key, the hydration record's directive name is the part of the suffix
  before its first colon (the entire suffix when it has no colon), and its argument
  is the key's value.
\<close>

theorem extractDirectives_directive_name:
  assumes "startsWith key ''client:''"
    and "key \<notin> set nonDirectiveKeys" and "key \<noteq> ''client:params''"
    and "\<forall>e \<in> set post. \<not> isDirectiveEntry e"
    and "extractDirectives \<lparr>entries = pre @ (key, v) # post, symbols = syms\<rparr> cd = Inr r"
  shows "\<exists>h. hydration r = Some h \<and>
             directive h = takeWhile (\<lambda>c. c \<noteq> CHR '':'') (drop (length ''client:'') key) \<and>
             hvalue h = v"
proof -
  obtain ex3 where loop: "extractLoop cd (pre @ (key, v) # post) initialExtracted = Inr ex3"
    and r: "r = copySymbols \<lparr>entries = pre @ (key, v) # post, symbols = syms\<rparr> ex3"
    using extractDirectives_Inr[OF assms(5)] by auto
  from loop obtain ex ex1 where 1: "extractEntry cd (key, v) ex = Inr ex1"
    and 2: "extractLoop cd post ex1 = Inr ex3"
    by (auto simp: extractLoop_append split: sum.splits)
  have d: "isDirectiveEntry (key, v)"
    using assms(1,2,3) by (simp add: isDirectiveEntry_def)
  have ek: "effectiveKey (key, v) = key" "effectiveValue (key, v) = v"
    using assms(3) by (simp_all add: effectiveKey_def effectiveValue_def)
  obtain s where key: "key = ''client:'' @ s"
    using assms(1) unfolding startsWith_conv by (elim exE)
  from extractEntry_directive[OF d 1]
  obtain h1 where h1: "hydration ex1 = Some h1"
    and n1: "directive h1 = split_str CHR '':'' key ! 1" and v1: "hvalue h1 = v"
    unfolding ek by (elim exE conjE)
  have n1': "directive h1 = takeWhile (\<lambda>c. c \<noteq> CHR '':'') (drop (length ''client:'') key)"
    unfolding n1 unfolding key split_str_client by simp
  from extractLoop_not_directive[OF assms(4) 2] h1
  obtain h where "hydration ex3 = Some h" and "directive h = directive h1"
    and "hvalue h = hvalue h1"
    by (auto simp: ensureHydration_def)
  then show ?thesis
    using n1' v1 by (simp add: r copySymbols_fields)
qed

lemma extract_colon_suffix:
  "extractDirectives
     \<lparr>entries = [(''title'', JStr ''Hi'')] @ (''client:a:b'', JStr ''x'')
                   # [(''client:component-path'', JStr ''/C.jsx'')],
      symbols = []\<rparr> (registry [''a'']) =
     Inr \<lparr>isPage = False,
          hydration = Some \<lparr>directive = ''a'', hvalue = JStr ''x'',
                            componentUrl = JStr ''/C.jsx'', componentExport = JStr []\<rparr>,
          props = \<lparr>entries = [(''title'', JStr ''Hi'')], symbols = []\<rparr>,
          propsWithoutTransitionAttributes =
            \<lparr>entries = [(''title'', JStr ''Hi'')], symbols = []\<rparr>\<rparr>"
  by code_simp

theorem extractDirectives_directive_name_witness:
  "startsWith ''client:a:b'' ''client:'' \<and>
   ''client:a:b'' \<notin> set nonDirectiveKeys \<and>
   ''client:a:b'' \<noteq> ''client:params'' \<and>
   \<not> isDirectiveEntry (''client:component-path'', JStr ''/C.jsx'') \<and>
   (\<exists>h. hydration
          \<lparr>isPage = False,
           hydration = Some \<lparr>directive = ''a'', hvalue = JStr ''x'',
                             componentUrl = JStr ''/C.jsx'', componentExport = JStr []\<rparr>,
           props = \<lparr>entries = [(''title'', JStr ''Hi'')], symbols = []\<rparr>,
           propsWithoutTransitionAttributes =
             \<lparr>entries = [(''title'', JStr ''Hi'')], symbols = []\<rparr>\<rparr> = Some h \<and>
        directive h = ''a'' \<and> hvalue h = JStr ''x'')"
proof -
  have s: "startsWith ''client:a:b'' ''client:''"
    by code_simp
  have n: "''client:a:b'' \<notin> set nonDirectiveKeys"
    by code_simp
  have p: "''client:a:b'' \<noteq> ''client:params''"
    by simp
  have q: "\<not> isDirectiveEntry (''client:component-path'', JStr ''/C.jsx'')"
    by code_simp
  have q': "\<forall>e \<in> set [(''client:component-path'', JStr ''/C.jsx'')]. \<not> isDirectiveEntry e"
    using q by simp
  have t: "takeWhile (\<lambda>c. c \<noteq> CHR '':'') (drop (length ''client:'') ''client:a:b'') = ''a''"
    by simp
  show ?thesis
    using extractDirectives_directive_name [OF s n p q' extract_colon_suffix] s n p q
    unfolding t by (intro conjI)
qed

section \<open>The rewrite of client:params\<close>

lemma withHydration_simps:
  "ensureHydration (withHydration ex) = ensureHydration ex"
  "withHydration (ex\<lparr>hydration := Some h\<rparr>) = ex\<lparr>hydration := Some h\<rparr>"
  "(withHydration ex)\<lparr>hydration := Some h\<rparr> = ex\<lparr>hydration := Some h\<rparr>"
  by (simp_all add: withHydration_def ensureHydration_def)

lemma extractEntry_withHydration:
  "extractEntry cd e (withHydration ex) =
     (case extractEntry cd e ex of Inl err \<Rightarrow> Inl err | Inr ex' \<Rightarrow> Inr (withHydration ex'))"
proof -
  obtain k v where e: "e = (k, v)" by (cases e)
  show ?thesis
  proof (cases "startsWith k ''client:''")
    case True
    show ?thesis
      unfolding e extractEntry_client[OF True]
      by (simp add: withHydration_simps split: sum.splits)
  next
    case False
    show ?thesis
      unfolding e extractEntry_other[OF False]
      by (simp add: withHydration_def ensureHydration_def)
  qed
qed

lemma extractLoop_withHydration:
  "extractLoop cd es (withHydration ex) =
     (case extractLoop cd es ex of Inl err \<Rightarrow> Inl err | Inr ex' \<Rightarrow> Inr (withHydration ex'))"
proof (induction es arbitrary: ex)
  case Nil
  then show ?case by simp
next
  case (Cons e es)
  show ?case
    by (simp add: extractEntry_withHydration Cons.IH split: sum.splits)
qed

lemma copySymbols_withHydration:
  "copySymbols b (withHydration ex) = withHydration (copySymbols b ex)"
  by (simp add: copySymbols_def fold_copySymbol withHydration_def ensureHydration_def)

lemma extractEntry_params_nullish:
  assumes "isNullish v"
  shows "extractEntry cd (''client:params'', v) ex = Inr (withHydration ex)"
proof -
  have c: "startsWith ''client:params'' ''client:''" by (simp add: startsWith_def)
  show ?thesis
    unfolding extractEntry_client[OF c] clientSwitch_params_nullish[OF assms]
    by (simp add: withHydration_def)
qed

lemma params_nullish_extract:
  assumes "isNullish v"
  shows "extractDirectives \<lparr>entries = pre @ (''client:params'', v) # post, symbols = syms\<rparr> cd =
     (case extractDirectives \<lparr>entries = pre @ post, symbols = syms\<rparr> cd of
        Inl err \<Rightarrow> Inl err
      | Inr r \<Rightarrow> Inr (withHydration r))"
  by (simp add: extractDirectives_def extractLoop_append extractEntry_params_nullish[OF assms]
        extractLoop_withHydration copySymbols_withHydration
        copySymbols_symbols_only[of "pre @ (''client:params'', v) # post" syms "pre @ post"]
        split: sum.splits)

lemma params_invalid_extract:
  assumes "\<not> isNullish v" and "\<not> validParams v"
    and "extractLoop cd pre initialExtracted = Inr ex"
  shows "\<exists>err. extractDirectives \<lparr>entries = pre @ (''client:params'', v) # post, symbols = syms\<rparr> cd
                 = Inl err \<and> isInvalidDirectiveValue err"
proof -
  have c: "startsWith ''client:params'' ''client:''" by (simp add: startsWith_def)
  from clientSwitch_params_invalid[OF assms(1,2), of cd "ensureHydration ex"]
  obtain err where 1: "clientSwitch cd ''client:params'' v (ensureHydration ex) = Inl err"
    and 2: "isInvalidDirectiveValue err"
    by (elim exE conjE)
  show ?thesis
    unfolding extractDirectives_split[OF assms(3)] extractEntry_client[OF c] 1
    using 2 by simp
qed

lemma extractEntry_params_rewrite:
  assumes "validParams v"
    and "''client:'' @ paramsDirective v \<notin> set nonDirectiveKeys"
    and "paramsDirective v \<noteq> ''params''"
  shows "extractEntry cd (''client:params'', v) ex =
           extractEntry cd (''client:'' @ paramsDirective v, getField v ''value'') ex"
proof -
  have c: "startsWith ''client:params'' ''client:''" by (simp add: startsWith_def)
  have c': "startsWith (''client:'' @ paramsDirective v) ''client:''"
    by (simp add: startsWith_def)
  have np: "''client:'' @ paramsDirective v \<noteq> ''client:params''"
    using assms(3) by simp
  show ?thesis
    unfolding extractEntry_client[OF c] extractEntry_client[OF c']
      clientSwitch_params_valid[OF assms(1)] clientSwitch_default[OF assms(2) np] ..
qed

text \<open>
  Claim C2, as stated, fails: the reassigned key of a valid \<^verbatim>\<open>client:params\<close> falls
  through to the default case and is not dispatched again. With the directive field
  \<^verbatim>\<open>display-name\<close> (and no \<^verbatim>\<open>value\<close> field) extraction fails for an unregistered
  directive, where the key \<^verbatim>\<open>client:display-name\<close> in its place, with the value
  \<^verbatim>\<open>undefined\<close>, is accepted and dropped.
\<close>

theorem params_display_name_counterexample:
  "validParams (JObj [(''directive'', JStr ''display-name'')]) \<and>
   getField (JObj [(''directive'', JStr ''display-name'')]) ''value'' = JUndefined \<and>
   extractDirectives
     \<lparr>entries = [(''client:params'', JObj [(''directive'', JStr ''display-name'')])],
      symbols = []\<rparr> (registry [''load'', ''idle'']) =
     Inl (InvalidHydrationDirective
           (''Error: invalid hydration directive '' @ [CHR 0x22] @ ''client:display-name''
              @ [CHR 0x22] @ ''. Supported hydration methods: client:load, client:idle'')) \<and>
   extractDirectives \<lparr>entries = [(''client:display-name'', JUndefined)], symbols = []\<rparr>
       (registry [''load'', ''idle'']) =
     Inr \<lparr>isPage = False,
          hydration = Some \<lparr>directive = [], hvalue = JStr [],
                            componentUrl = JStr [], componentExport = JStr []\<rparr>,
          props = \<lparr>entries = [], symbols = []\<rparr>,
          propsWithoutTransitionAttributes = \<lparr>entries = [], symbols = []\<rparr>\<rparr>"
  by code_simp

text \<open>
  Claim C2, amended. The handling of \<^verbatim>\<open>client:params\<close>, at any position of the bag.
  If the value is nullish, the key has no effect but that the hydration record is
  present: the result is that of the bag without the key, with an absent hydration
  record replaced by the initial one. Otherwise, unless the value is an object whose
  keys are only \<^verbatim>\<open>directive\<close> (required, a string) and optionally \<^verbatim>\<open>value\<close>,
  extraction fails at the key with one of the three invalid-value errors. When the
  shape is valid, the switch continues in its default case with the key
  \<^verbatim>\<open>client:<directive-field>\<close> and the \<^verbatim>\<open>value\<close> field; so, for a directive field
  other than \<^verbatim>\<open>component-path\<close>, \<^verbatim>\<open>component-export\<close>, \<^verbatim>\<open>component-hydration\<close>,
  \<^verbatim>\<open>display-name\<close> and \<^verbatim>\<open>params\<close>, extraction behaves exactly as if that key with
  that value had appeared at that position instead. The directive name that the entry
  sets is the part of the directive field before its first colon, and the argument is
  the \<^verbatim>\<open>value\<close> field: \<^verbatim>\<open>params\<close> is the name only when the directive field says so.
\<close>

theorem extractDirectives_params:
  shows "(isNullish v \<longrightarrow>
            extractDirectives \<lparr>entries = pre @ (''client:params'', v) # post, symbols = syms\<rparr> cd =
              (case extractDirectives \<lparr>entries = pre @ post, symbols = syms\<rparr> cd of
                 Inl err \<Rightarrow> Inl err
               | Inr r \<Rightarrow> Inr (withHydration r))) \<and>
         (\<not> isNullish v \<and> \<not> validParams v \<and> extractLoop cd pre initialExtracted = Inr ex \<longrightarrow>
            (\<exists>err. extractDirectives
                      \<lparr>entries = pre @ (''client:params'', v) # post, symbols = syms\<rparr> cd = Inl err \<and>
                   isInvalidDirectiveValue err)) \<and>
         (validParams v \<longrightarrow>
            clientSwitch cd ''client:params'' v h =
              defaultCase cd (''client:'' @ paramsDirective v) (getField v ''value'') h) \<and>
         (validParams v \<and> ''client:'' @ paramsDirective v \<notin> set nonDirectiveKeys \<and>
          paramsDirective v \<noteq> ''params'' \<longrightarrow>
            extractDirectives \<lparr>entries = pre @ (''client:params'', v) # post, symbols = syms\<rparr> cd =
            extractDirectives
              \<lparr>entries = pre @ (''client:'' @ paramsDirective v, getField v ''value'') # post,
               symbols = syms\<rparr> cd) \<and>
         (validParams v \<and> extractEntry cd (''client:params'', v) ex = Inr ex' \<longrightarrow>
            (\<exists>h'. hydration ex' = Some h' \<and>
                  directive h' = takeWhile (\<lambda>c. c \<noteq> CHR '':'') (paramsDirective v) \<and>
                  hvalue h' = getField v ''value''))"
proof (intro conjI impI)
  assume "isNullish v"
  then show "extractDirectives \<lparr>entries = pre @ (''client:params'', v) # post, symbols = syms\<rparr> cd =
              (case extractDirectives \<lparr>entries = pre @ post, symbols = syms\<rparr> cd of
                 Inl err \<Rightarrow> Inl err
               | Inr r \<Rightarrow> Inr (withHydration r))"
    by (rule params_nullish_extract)
next
  assume "\<not> isNullish v \<and> \<not> validParams v \<and> extractLoop cd pre initialExtracted = Inr ex"
  then show "\<exists>err. extractDirectives
                      \<lparr>entries = pre @ (''client:params'', v) # post, symbols = syms\<rparr> cd = Inl err \<and>
                   isInvalidDirectiveValue err"
    using params_invalid_extract by blast
next
  assume "validParams v"
  then show "clientSwitch cd ''client:params'' v h =
              defaultCase cd (''client:'' @ paramsDirective v) (getField v ''value'') h"
    by (rule clientSwitch_params_valid)
next
  assume a: "validParams v \<and> ''client:'' @ paramsDirective v \<notin> set nonDirectiveKeys \<and>
          paramsDirective v \<noteq> ''params''"
  show "extractDirectives \<lparr>entries = pre @ (''client:params'', v) # post, symbols = syms\<rparr> cd =
            extractDirectives
              \<lparr>entries = pre @ (''client:'' @ paramsDirective v, getField v ''value'') # post,
               symbols = syms\<rparr> cd"
    by (rule extractDirectives_cong_entry) (use a in \<open>simp add: extractEntry_params_rewrite\<close>)
next
  assume a: "validParams v \<and> extractEntry cd (''client:params'', v) ex = Inr ex'"
  then have vp: "validParams v" and en: "extractEntry cd (''client:params'', v) ex = Inr ex'"
    by simp_all
  have nn: "\<not> isNullish v"
    using vp by (cases v) simp_all
  have de: "isDirectiveEntry (''client:params'', v)"
    using nn by (simp add: isDirectiveEntry_def startsWith_def nonDirectiveKeys_def)
  have ek: "effectiveKey (''client:params'', v) = ''client:'' @ paramsDirective v"
    "effectiveValue (''client:params'', v) = getField v ''value''"
    by (simp_all add: effectiveKey_def effectiveValue_def)
  from extractEntry_directive[OF de en]
  obtain h' where 1: "hydration ex' = Some h'"
    and 2: "directive h' = split_str CHR '':'' (''client:'' @ paramsDirective v) ! 1"
    and 3: "hvalue h' = getField v ''value''"
    unfolding ek by (elim exE conjE)
  from 1 2 3 show "\<exists>h'. hydration ex' = Some h' \<and>
                  directive h' = takeWhile (\<lambda>c. c \<noteq> CHR '':'') (paramsDirective v) \<and>
                  hvalue h' = getField v ''value''"
    unfolding split_str_client by (intro exI conjI)
qed

lemma extract_idle:
  "extractDirectives \<lparr>entries = [] @ (''client:idle'', JUndefined) # [], symbols = []\<rparr>
       (registry [''load'', ''idle'']) =
     Inr \<lparr>isPage = False,
          hydration = Some \<lparr>directive = ''idle'', hvalue = JUndefined,
                            componentUrl = JStr [], componentExport = JStr []\<rparr>,
          props = \<lparr>entries = [], symbols = []\<rparr>,
          propsWithoutTransitionAttributes = \<lparr>entries = [], symbols = []\<rparr>\<rparr>"
  by code_simp

lemma extract_empty:
  "extractDirectives \<lparr>entries = [] @ [], symbols = []\<rparr> (registry [''load'', ''idle'']) =
     Inr initialExtracted"
  by code_simp

theorem extractDirectives_params_witness:
  "isNullish JNull \<and>
   extractDirectives \<lparr>entries = [] @ (''client:params'', JNull) # [], symbols = []\<rparr>
       (registry [''load'', ''idle'']) = Inr (withHydration initialExtracted) \<and>
   \<not> isNullish (JStr ''idle'') \<and> \<not> validParams (JStr ''idle'') \<and>
   (\<exists>err. extractDirectives
            \<lparr>entries = [] @ (''client:params'', JStr ''idle'') # [], symbols = []\<rparr>
            (registry [''load'', ''idle'']) = Inl err \<and> isInvalidDirectiveValue err) \<and>
   validParams (JObj [(''directive'', JStr ''idle'')]) \<and>
   extractDirectives
     \<lparr>entries = [] @ (''client:params'', JObj [(''directive'', JStr ''idle'')]) # [],
      symbols = []\<rparr> (registry [''load'', ''idle'']) =
     Inr \<lparr>isPage = False,
          hydration = Some \<lparr>directive = ''idle'', hvalue = JUndefined,
                            componentUrl = JStr [], componentExport = JStr []\<rparr>,
          props = \<lparr>entries = [], symbols = []\<rparr>,
          propsWithoutTransitionAttributes = \<lparr>entries = [], symbols = []\<rparr>\<rparr>"
proof -
  let ?cd = "registry [''load'', ''idle'']"
  let ?v = "JObj [(''directive'', JStr ''idle'')]"
  have n1: "isNullish JNull"
    by simp
  have r1: "extractDirectives \<lparr>entries = [] @ (''client:params'', JNull) # [], symbols = []\<rparr>
       ?cd = Inr (withHydration initialExtracted)"
    using extractDirectives_params
            [of JNull "[]" "[]" "[]" ?cd initialExtracted emptyHydration,
             THEN conjunct1, THEN mp, OF n1]
    unfolding extract_empty by simp
  have n2: "\<not> isNullish (JStr ''idle'')" and i2: "\<not> validParams (JStr ''idle'')"
    by simp_all
  have l2: "extractLoop ?cd [] initialExtracted = Inr initialExtracted"
    by simp
  have r2: "\<exists>err. extractDirectives
            \<lparr>entries = [] @ (''client:params'', JStr ''idle'') # [], symbols = []\<rparr>
            ?cd = Inl err \<and> isInvalidDirectiveValue err"
    using extractDirectives_params
            [of "JStr ''idle''" "[]" "[]" "[]" ?cd initialExtracted emptyHydration,
             THEN conjunct2, THEN conjunct1, THEN mp, OF conjI [OF n2 conjI [OF i2 l2]]] .
  have v3: "validParams ?v"
    by code_simp
  have k3: "''client:'' @ paramsDirective ?v \<notin> set nonDirectiveKeys"
    by code_simp
  have p3: "paramsDirective ?v \<noteq> ''params''"
    by code_simp
  have d3: "paramsDirective ?v = ''idle''" and g3: "getField ?v ''value'' = JUndefined"
    by code_simp+
  have r3: "extractDirectives \<lparr>entries = [] @ (''client:params'', ?v) # [], symbols = []\<rparr> ?cd =
     Inr \<lparr>isPage = False,
          hydration = Some \<lparr>directive = ''idle'', hvalue = JUndefined,
                            componentUrl = JStr [], componentExport = JStr []\<rparr>,
          props = \<lparr>entries = [], symbols = []\<rparr>,
          propsWithoutTransitionAttributes = \<lparr>entries = [], symbols = []\<rparr>\<rparr>"
    using extractDirectives_params
            [of ?v "[]" "[]" "[]" ?cd initialExtracted emptyHydration,
             THEN conjunct2, THEN conjunct2, THEN conjunct2, THEN conjunct1, THEN mp,
             OF conjI [OF v3 conjI [OF k3 p3]]]
    unfolding d3 g3 using extract_idle by simp
  show ?thesis
    using n1 r1 n2 i2 r2 v3 r3 by (intro conjI)
qed

section \<open>Properties of the island script builder\<close>

text \<open>
  Claim C9. Whenever the metadata's \<^verbatim>\<open>componentExport.value\<close> is empty,
  \<^verbatim>\<open>generateHydrateScript\<close> fails with \<^verbatim>\<open>NoMatchingImport\<close> (the spec's
  \<open>MissingComponentExport\<close>), and the list of \<^verbatim>\<open>result.resolve\<close> calls made is empty.
\<close>

theorem generateHydrateScript_missing_export:
  "md_componentExport md = [] \<Longrightarrow>
     generateHydrateScript c so md = (Inl (NoMatchingImport (md_displayName md)), [])"
  by (simp add: generateHydrateScript_def)

theorem generateHydrateScript_missing_export_witness:
  "md_componentExport (exampleMetadata []) = [] \<and>
   generateHydrateScript exampleCollaborators (exampleOptions None) (exampleMetadata [])
     = (Inl (NoMatchingImport ''Counter''), [])"
  using generateHydrateScript_missing_export
          [of "exampleMetadata []" exampleCollaborators "exampleOptions None"]
  by (simp add: exampleMetadata_def)

text \<open>The attribute names of an island, step by step.\<close>

lemma keys_setAttr:
  "fst ` set (el_props (setAttr k v island)) =
     (if k = ''__proto__'' then fst ` set (el_props island)
      else insert k (fst ` set (el_props island)))"
  by (simp add: setAttr_def keys_assign)

lemma keys_fold_setAttr:
  "fst ` set (el_props (fold (\<lambda>kv. setAttr (fst kv) (f kv)) kvs island))
     = fst ` set (el_props island) \<union> (fst ` set kvs - {''__proto__''})"
  by (induction kvs arbitrary: island) (auto simp: keys_setAttr)

lemma keys_attachAttrs:
  "fst ` set (el_props (attachAttrs c as island))
     = fst ` set (el_props island)
         \<union> (case as of None \<Rightarrow> {} | Some kvs \<Rightarrow> fst ` set kvs - {''__proto__''})"
  by (cases as) (simp_all add: attachAttrs_def keys_fold_setAttr)

lemma keys_copyTransition:
  "fst ` set (el_props (copyTransition p name island))
     = fst ` set (el_props island)
         \<union> (if truthy (getEntry p name) \<and> name \<noteq> ''__proto__'' then {name} else {})"
  by (simp add: copyTransition_def keys_setAttr)

lemma keys_fold_copyTransition:
  "fst ` set (el_props (fold (copyTransition p) names island))
     = fst ` set (el_props island)
         \<union> {n \<in> set names. truthy (getEntry p n) \<and> n \<noteq> ''__proto__''}"
  by (induction names arbitrary: island) (auto simp: keys_copyTransition)

text \<open>
  Without a client entry point the builder makes its two \<^verbatim>\<open>resolve\<close> calls in order
  and returns \<open>islandWithoutEntrypoint\<close>, unless a collaborator fails.
\<close>

lemma generateHydrateScript_no_entrypoint:
  assumes "clientEntrypoint (so_renderer so) = None"
    and "md_componentExport md \<noteq> []"
  shows "generateHydrateScript c so md =
     (case decodeURI c (md_componentUrl md) of
        Inl e \<Rightarrow> (Inl e, [])
      | Inr u \<Rightarrow>
         (case resolve (so_result so) u of
            Inl e \<Rightarrow> (Inl e, [u])
          | Inr url \<Rightarrow>
             (case resolve (so_result so) ''astro:scripts/before-hydration.js'' of
                Inl e \<Rightarrow> (Inl e, [u, ''astro:scripts/before-hydration.js''])
              | Inr b \<Rightarrow> (Inr (islandWithoutEntrypoint c so md url b),
                          [u, ''astro:scripts/before-hydration.js'']))))"
  using assms
  by (simp add: generateHydrateScript_def bindA_def liftA_def resolveA_def returnA_def
        addRendererUrl_def islandWithoutEntrypoint_def split: sum.splits)

lemma keys_islandWithoutEntrypoint:
  "fst ` set (el_props (islandWithoutEntrypoint c so md url b)) =
      {''opts'', ''client'', ''ssr'', ''component-url'', ''uid''}
        \<union> (if b \<noteq> [] then {''before-hydration-url''} else {})
        \<union> (case so_attrs so of None \<Rightarrow> {} | Some kvs \<Rightarrow> fst ` set kvs - {''__proto__''})
        \<union> {n \<in> set transitionDirectivesToCopyOnIsland.
             truthy (getEntry (so_props so) n) \<and> n \<noteq> ''__proto__''}"
  by (auto simp: islandWithoutEntrypoint_def keys_fold_copyTransition keys_setAttr keys_attachAttrs)

lemmas run_builder =
  generateHydrateScript_def bindA_def liftA_def resolveA_def returnA_def addRendererUrl_def
  exampleCollaborators_def exampleOptions_def exampleMetadata_def exampleResult_def
  attachAttrs_def setAttr_def assign_def copyTransition_def getEntry_def emptyProps_def
  transitionDirectivesToCopyOnIsland_def

text \<open>
  Claim C8, as stated, fails: the caller-supplied extra attributes are copied into the
  island under their own names, so a renderer without a client entry point whose extra
  attributes have the key \<^verbatim>\<open>props\<close> gives an island with a \<^verbatim>\<open>props\<close> attribute.
\<close>

theorem generateHydrateScript_attrs_props_counterexample:
  "clientEntrypoint (so_renderer (exampleOptions (Some [(''props'', ''x'')]))) = None \<and>
   generateHydrateScript exampleCollaborators (exampleOptions (Some [(''props'', ''x'')]))
       (exampleMetadata ''default'')
     = (Inr \<lparr>el_children = [],
             el_props =
               [(''uid'', JStr ''Z1''), (''props'', JStr ''x''),
                (''component-url'', JStr ''/Counter.jsx''), (''ssr'', JStr []),
                (''client'', JStr ''load''),
                (''before-hydration-url'', JStr ''/astro:scripts/before-hydration.js''),
                (''opts'', JStr ''Counter'')]\<rparr>,
        [''Counter.jsx'', ''astro:scripts/before-hydration.js''])"
  by (simp add: run_builder)

text \<open>
  Claim C8, amended. For every call of \<^verbatim>\<open>generateHydrateScript\<close> with a renderer that
  has no client entry point and a non-empty \<^verbatim>\<open>componentExport\<close> value, the returned
  island has a \<^verbatim>\<open>props\<close> attribute only if the caller-supplied extra attributes have
  the key \<^verbatim>\<open>props\<close>, and a \<^verbatim>\<open>renderer-url\<close> attribute only if they have the key
  \<^verbatim>\<open>renderer-url\<close>; it always has the attributes \<^verbatim>\<open>ssr\<close>, \<^verbatim>\<open>client\<close>, \<^verbatim>\<open>uid\<close>,
  \<^verbatim>\<open>component-url\<close> and \<^verbatim>\<open>opts\<close>.
\<close>

theorem generateHydrateScript_no_entrypoint_attributes:
  assumes "clientEntrypoint (so_renderer so) = None"
    and "md_componentExport md \<noteq> []"
    and "generateHydrateScript c so md = (Inr island, t)"
  shows "(''props'' \<in> fst ` set (el_props island)
            \<longleftrightarrow> (\<exists>as. so_attrs so = Some as \<and> ''props'' \<in> fst ` set as)) \<and>
         (''renderer-url'' \<in> fst ` set (el_props island)
            \<longleftrightarrow> (\<exists>as. so_attrs so = Some as \<and> ''renderer-url'' \<in> fst ` set as)) \<and>
         {''ssr'', ''client'', ''uid'', ''component-url'', ''opts''}
            \<subseteq> fst ` set (el_props island)"
proof -
  obtain url b where "island = islandWithoutEntrypoint c so md url b"
    using assms(3) unfolding generateHydrateScript_no_entrypoint[OF assms(1,2)]
    by (auto split: sum.splits)
  then show ?thesis
    by (auto simp: keys_islandWithoutEntrypoint transitionDirectivesToCopyOnIsland_def
          split: option.splits)
qed

theorem generateHydrateScript_no_entrypoint_attributes_witness:
  "clientEntrypoint (so_renderer (exampleOptions None)) = None \<and>
   md_componentExport (exampleMetadata ''default'') \<noteq> [] \<and>
   generateHydrateScript exampleCollaborators (exampleOptions None) (exampleMetadata ''default'')
     = (Inr \<lparr>el_children = [],
             el_props =
               [(''uid'', JStr ''Z1''),
                (''component-url'', JStr ''/Counter.jsx''), (''ssr'', JStr []),
                (''client'', JStr ''load''),
                (''before-hydration-url'', JStr ''/astro:scripts/before-hydration.js''),
                (''opts'', JStr ''Counter'')]\<rparr>,
        [''Counter.jsx'', ''astro:scripts/before-hydration.js'']) \<and>
   ''props'' \<notin> fst ` set
      [(''uid'', JStr ''Z1''),
       (''component-url'', JStr ''/Counter.jsx''), (''ssr'', JStr []),
       (''client'', JStr ''load''),
       (''before-hydration-url'', JStr ''/astro:scripts/before-hydration.js''),
       (''opts'', JStr ''Counter'')]"
proof -
  have h1: "clientEntrypoint (so_renderer (exampleOptions None)) = None"
    by (simp add: exampleOptions_def)
  have h2: "md_componentExport (exampleMetadata ''default'') \<noteq> []"
    by (simp add: exampleMetadata_def)
  have h3: "generateHydrateScript exampleCollaborators (exampleOptions None)
              (exampleMetadata ''default'')
     = (Inr \<lparr>el_children = [],
             el_props =
               [(''uid'', JStr ''Z1''),
                (''component-url'', JStr ''/Counter.jsx''), (''ssr'', JStr []),
                (''client'', JStr ''load''),
                (''before-hydration-url'', JStr ''/astro:scripts/before-hydration.js''),
                (''opts'', JStr ''Counter'')]\<rparr>,
        [''Counter.jsx'', ''astro:scripts/before-hydration.js''])"
    by (simp add: run_builder)
  show ?thesis
    using h1 h2 h3 generateHydrateScript_no_entrypoint_attributes [OF h1 h2 h3]
    by (simp add: exampleOptions_def)
qed

end
